theory Spec2Isabelle
  imports Main
begin

section \<open>Values, errors and tensors\<close>

text \<open>
  The operator of \<^verbatim>\<open>student_code.py\<close> works on dense tensors. A tensor of rank
  \<open>r\<close> is a nested list of depth \<open>r\<close> in row-major order; its elements range over a
  commutative semiring, so sums and products are exact (rounding of floating-point
  numbers is not part of the model). A nested list carries the shape of a tensor only
  when every extent is positive, and the theorems about shapes and values assume so.
  Python values that the code tests with \<^verbatim>\<open>isinstance(_, int)\<close> are a datatype of
  their own; exceptions are values.
\<close>

datatype pyval = PyInt int | PyTuple "int list"

datatype error = AssertionError | AttributeError | RuntimeError | ZeroDivisionError

type_synonym 'a t1 = "'a list"
type_synonym 'a t2 = "'a list list"
type_synonym 'a t3 = "'a list list list"
type_synonym 'a t4 = "'a list list list list"

definition rbind :: "error + 'a \<Rightarrow> ('a \<Rightarrow> error + 'b) \<Rightarrow> error + 'b" where
  "rbind m f = (case m of Inl e \<Rightarrow> Inl e | Inr v \<Rightarrow> f v)"

definition tab :: "nat \<Rightarrow> (nat \<Rightarrow> 'a) \<Rightarrow> 'a list" where
  "tab n f = map f [0..<n]"

definition sumto :: "nat \<Rightarrow> (nat \<Rightarrow> 'a::comm_monoid_add) \<Rightarrow> 'a" where
  "sumto n f = sum_list (map f [0..<n])"

text \<open>\<^verbatim>\<open>t.size(i)\<close>: the extent of axis \<open>i\<close>, read off the first element of each level.\<close>

definition size1 :: "'a list list \<Rightarrow> nat" where
  "size1 t = (case t of [] \<Rightarrow> 0 | a # _ \<Rightarrow> length a)"

definition size2 :: "'a list list list \<Rightarrow> nat" where
  "size2 t = (case t of [] \<Rightarrow> 0 | a # _ \<Rightarrow> size1 a)"

definition size3 :: "'a list list list list \<Rightarrow> nat" where
  "size3 t = (case t of [] \<Rightarrow> 0 | a # _ \<Rightarrow> size2 a)"

text \<open>A nested list is a tensor of a given shape when it is rectangular at every level.\<close>

definition is_t2 :: "nat \<Rightarrow> nat \<Rightarrow> 'a t2 \<Rightarrow> bool" where
  "is_t2 a b t \<longleftrightarrow> length t = a \<and> list_all (\<lambda>r. length r = b) t"

definition is_t3 :: "nat \<Rightarrow> nat \<Rightarrow> nat \<Rightarrow> 'a t3 \<Rightarrow> bool" where
  "is_t3 a b c t \<longleftrightarrow> length t = a \<and> list_all (is_t2 b c) t"

definition is_t4 :: "nat \<Rightarrow> nat \<Rightarrow> nat \<Rightarrow> nat \<Rightarrow> 'a t4 \<Rightarrow> bool" where
  "is_t4 a b c d t \<longleftrightarrow> length t = a \<and> list_all (is_t3 b c d) t"

section \<open>Tensor primitives of the library\<close>

text \<open>
  \<^verbatim>\<open>unfold\<close>, \<^verbatim>\<open>fold\<close>, \<^verbatim>\<open>matmul\<close>, \<^verbatim>\<open>transpose\<close>, \<^verbatim>\<open>view\<close>, \<^verbatim>\<open>expand\<close> and
  \<^verbatim>\<open>sum\<close> belong to the tensor library, not to the repository. They are modelled by
  what the library documents: \<^verbatim>\<open>unfold\<close> gathers (im2col), \<^verbatim>\<open>fold\<close> scatters and
  accumulates (col2im), both for a square kernel and equal stride and padding on both
  axes, which is how the source calls them.
\<close>

definition out_size :: "nat \<Rightarrow> nat \<Rightarrow> nat \<Rightarrow> nat \<Rightarrow> nat" where
  "out_size H k p s = (H + 2 * p - k) div s + 1"

text \<open>Reading the zero-padded image at padded coordinates \<open>(y, x)\<close>.\<close>

definition pad_get :: "'a::zero t3 \<Rightarrow> nat \<Rightarrow> nat \<Rightarrow> nat \<Rightarrow> nat \<Rightarrow> nat \<Rightarrow> nat \<Rightarrow> 'a" where
  "pad_get img H W p c y x =
     (if p \<le> y \<and> y < H + p \<and> p \<le> x \<and> x < W + p then img ! c ! (y - p) ! (x - p) else 0)"

text \<open>
  Row \<open>r\<close> of the column matrix is channel \<open>r div (k * k)\<close> at kernel offset
  \<open>((r div k) mod k, r mod k)\<close>; column \<open>l\<close> is the window at
  \<open>(l div nW, l mod nW)\<close>.
\<close>

definition im2col :: "'a::zero t3 \<Rightarrow> nat \<Rightarrow> nat \<Rightarrow> nat \<Rightarrow> nat \<Rightarrow> nat \<Rightarrow> nat \<Rightarrow> 'a t2" where
  "im2col img C H W k p s =
     (let nH = out_size H k p s; nW = out_size W k p s
      in tab (C * k * k) (\<lambda>r. tab (nH * nW) (\<lambda>l.
           pad_get img H W p (r div (k * k))
             ((l div nW) * s + (r div k) mod k) ((l mod nW) * s + r mod k))))"

definition unfold :: "'a::zero t4 \<Rightarrow> nat \<Rightarrow> int \<Rightarrow> int \<Rightarrow> error + 'a t3" where
  "unfold x k padding stride =
     (if k = 0 \<or> stride \<le> 0 \<or> padding < 0 then Inl RuntimeError
      else let p = nat padding; s = nat stride;
               C = size1 x; H = size2 x; W = size3 x
           in if H + 2 * p < k \<or> W + 2 * p < k then Inl RuntimeError
              else Inr (map (\<lambda>img. im2col img C H W k p s) x))"

definition zeros3 :: "nat \<Rightarrow> nat \<Rightarrow> nat \<Rightarrow> 'a::zero t3" where
  "zeros3 C H W = replicate C (replicate H (replicate W 0))"

text \<open>One step of the scatter: entry \<open>(r, l)\<close> of the columns is added to its pixel.\<close>

definition col2im_step ::
  "'a::comm_monoid_add t2 \<Rightarrow> nat \<Rightarrow> nat \<Rightarrow> nat \<Rightarrow> nat \<Rightarrow> nat \<Rightarrow> nat \<Rightarrow> 'a t3 \<Rightarrow> nat \<times> nat \<Rightarrow> 'a t3" where
  "col2im_step cols H W k p s nW im rl =
     (case rl of (r, l) \<Rightarrow>
        let c = r div (k * k);
            y = (l div nW) * s + (r div k) mod k;
            x = (l mod nW) * s + r mod k
        in if p \<le> y \<and> y < H + p \<and> p \<le> x \<and> x < W + p
           then im[c := (im ! c)[y - p := (im ! c ! (y - p))[x - p :=
                  im ! c ! (y - p) ! (x - p) + cols ! r ! l]]]
           else im)"

definition col2im :: "'a::comm_monoid_add t2 \<Rightarrow> nat \<Rightarrow> nat \<Rightarrow> nat \<Rightarrow> nat \<Rightarrow> nat \<Rightarrow> nat \<Rightarrow> 'a t3" where
  "col2im cols C H W k p s =
     (let nH = out_size H k p s; nW = out_size W k p s
      in foldl (col2im_step cols H W k p s nW) (zeros3 C H W)
           (List.product [0..<C * k * k] [0..<nH * nW]))"

definition fold :: "'a::comm_monoid_add t3 \<Rightarrow> nat \<times> nat \<Rightarrow> nat \<Rightarrow> int \<Rightarrow> int \<Rightarrow> error + 'a t4" where
  "fold cols output_size k padding stride =
     (case output_size of (H, W) \<Rightarrow>
        if k = 0 \<or> stride \<le> 0 \<or> padding < 0 then Inl RuntimeError
        else let p = nat padding; s = nat stride in
          if size1 cols mod (k * k) \<noteq> 0 \<or> H + 2 * p < k \<or> W + 2 * p < k
             \<or> size2 cols \<noteq> out_size H k p s * out_size W k p s
          then Inl RuntimeError
          else Inr (map (\<lambda>c. col2im c (size1 cols div (k * k)) H W k p s) cols))"

text \<open>\<^verbatim>\<open>m.t()\<close> and \<^verbatim>\<open>t.transpose(1,2)\<close>.\<close>

definition t2d :: "'a t2 \<Rightarrow> 'a t2" where
  "t2d m = tab (size1 m) (\<lambda>j. tab (length m) (\<lambda>i. m ! i ! j))"

definition transpose12 :: "'a t3 \<Rightarrow> 'a t3" where
  "transpose12 t = map t2d t"

text \<open>Matrix product, and \<^verbatim>\<open>matmul\<close> on a batch: with a matrix, and with a batch
  (a batch of one is broadcast).\<close>

definition mm :: "'a::comm_semiring_0 t2 \<Rightarrow> 'a t2 \<Rightarrow> 'a t2" where
  "mm a b = tab (length a) (\<lambda>i. tab (size1 b) (\<lambda>j. sumto (length b) (\<lambda>k. a ! i ! k * b ! k ! j)))"

definition matmul32 :: "'a::comm_semiring_0 t3 \<Rightarrow> 'a t2 \<Rightarrow> error + 'a t3" where
  "matmul32 a b =
     (if size2 a \<noteq> length b then Inl RuntimeError else Inr (map (\<lambda>m. mm m b) a))"

definition matmul33 :: "'a::comm_semiring_0 t3 \<Rightarrow> 'a t3 \<Rightarrow> error + 'a t3" where
  "matmul33 a b =
     (let na = length a; nb = length b
      in if (na \<noteq> nb \<and> na \<noteq> 1 \<and> nb \<noteq> 1) \<or> size2 a \<noteq> size1 b then Inl RuntimeError
         else Inr (tab (max na nb) (\<lambda>n.
                mm (a ! (if na = 1 then 0 else n)) (b ! (if nb = 1 then 0 else n)))))"

text \<open>\<^verbatim>\<open>weight.view(weight.size(0), -1)\<close>: each filter flattened in row-major order.\<close>

definition view2 :: "'a t4 \<Rightarrow> 'a t2" where
  "view2 w = map (\<lambda>f. concat (map concat f)) w"

text \<open>\<^verbatim>\<open>t.view(t.size(0), -1, k, k)\<close>: each row cut into \<open>k \<times> k\<close> blocks.\<close>

definition view4 :: "'a t2 \<Rightarrow> nat \<Rightarrow> error + 'a t4" where
  "view4 t k =
     (if k = 0 \<or> size1 t mod (k * k) \<noteq> 0 then Inl RuntimeError
      else Inr (map (\<lambda>row. tab (size1 t div (k * k)) (\<lambda>c. tab k (\<lambda>i. tab k (\<lambda>j.
                  row ! (c * k * k + i * k + j))))) t))"

text \<open>\<^verbatim>\<open>bias.expand((N, C))\<close>, \<^verbatim>\<open>unsqueeze(2)\<close> and \<^verbatim>\<open>expand((N, C, L))\<close> of an
  \<open>N \<times> C \<times> 1\<close> tensor.\<close>

definition expand12 :: "'a t1 \<Rightarrow> nat \<times> nat \<Rightarrow> error + 'a t2" where
  "expand12 b sz =
     (case sz of (n, c) \<Rightarrow>
        if length b = c then Inr (replicate n b)
        else if length b = 1 then Inr (replicate n (replicate c (b ! 0)))
        else Inl RuntimeError)"

definition unsqueeze2 :: "'a t2 \<Rightarrow> 'a t3" where
  "unsqueeze2 t = map (map (\<lambda>v. [v])) t"

definition expand3 :: "'a t3 \<Rightarrow> nat \<Rightarrow> 'a t3" where
  "expand3 t l = map (map (\<lambda>r. replicate l (r ! 0))) t"

definition add3 :: "'a::plus t3 \<Rightarrow> 'a t3 \<Rightarrow> 'a t3" where
  "add3 a b = map2 (map2 (map2 (+))) a b"

text \<open>\<^verbatim>\<open>t.sum((0))\<close> of a rank-3 tensor and \<^verbatim>\<open>t.sum((0, 2, 3))\<close> of a rank-4 tensor.\<close>

definition sum0 :: "'a::comm_monoid_add t3 \<Rightarrow> 'a t2" where
  "sum0 t = tab (size1 t) (\<lambda>i. tab (size2 t) (\<lambda>j. sumto (length t) (\<lambda>n. t ! n ! i ! j)))"

definition sum023 :: "'a::comm_monoid_add t4 \<Rightarrow> 'a t1" where
  "sum023 t = tab (size1 t) (\<lambda>c. sumto (length t) (\<lambda>n. sumto (size2 t) (\<lambda>y.
                sumto (size3 t) (\<lambda>x. t ! n ! c ! y ! x))))"

section \<open>The operator: \<^verbatim>\<open>CustomConv2DFunction\<close>\<close>

text \<open>
  The context object \<^verbatim>\<open>ctx\<close> that the framework hands to \<^verbatim>\<open>forward\<close> and later to
  \<^verbatim>\<open>backward\<close>. \<^verbatim>\<open>needs_input_grad\<close> is set by the framework, one flag per argument
  of \<^verbatim>\<open>forward\<close>.
\<close>

record 'a ctx =
  ctx_stride :: int
  ctx_padding :: int
  ctx_input_height :: nat
  ctx_input_width :: nat
  ctx_saved_tensors :: "'a t3 \<times> 'a t2 \<times> 'a t4 \<times> 'a t1 option"
  ctx_needs_input_grad :: "bool \<times> bool \<times> bool \<times> bool \<times> bool"

text \<open>The context as the framework creates it, before \<^verbatim>\<open>forward\<close> fills it in.\<close>

definition fresh_ctx :: "bool \<times> bool \<times> bool \<times> bool \<times> bool \<Rightarrow> 'a ctx" where
  "fresh_ctx needs =
     \<lparr>ctx_stride = 0, ctx_padding = 0, ctx_input_height = 0, ctx_input_width = 0,
      ctx_saved_tensors = ([], [], [], None), ctx_needs_input_grad = needs\<rparr>"

text \<open>Lines 62 to 78 of \<^verbatim>\<open>forward\<close>, after the sanity checks.\<close>

definition forward_body ::
  "'a::comm_semiring_0 ctx \<Rightarrow> 'a t4 \<Rightarrow> 'a t4 \<Rightarrow> 'a t1 option \<Rightarrow> nat \<Rightarrow> int \<Rightarrow> int
     \<Rightarrow> error + ('a ctx \<times> 'a t4)" where
  "forward_body ctx input_feats weight bias kernel_size stride padding =
     rbind (unfold input_feats kernel_size padding stride) (\<lambda>input_feats_unfold.
     let weight_unfold = view2 weight in
     rbind (matmul32 (transpose12 input_feats_unfold) (t2d weight_unfold)) (\<lambda>prod.
     let out_unfold = transpose12 prod in
     (case bias of
        None \<Rightarrow> Inl AttributeError
      | Some b \<Rightarrow>
          rbind (expand12 b (length out_unfold, size1 out_unfold)) (\<lambda>b2.
          let bias_unfold = expand3 (unsqueeze2 b2) (size2 out_unfold);
              out_unfold = add3 out_unfold bias_unfold;
              out_dim1 = (int (ctx_input_height ctx) + 2 * ctx_padding ctx - int kernel_size)
                            div stride + 1;
              out_dim2 = (int (ctx_input_width ctx) + 2 * ctx_padding ctx - int kernel_size)
                            div stride + 1
          in rbind (fold out_unfold (nat out_dim1, nat out_dim2) 1 0 1) (\<lambda>out_fold.
             Inr (ctx\<lparr>ctx_saved_tensors := (input_feats_unfold, weight_unfold, weight, bias)\<rparr>,
                  out_fold))))))"

definition forward ::
  "'a::comm_semiring_0 ctx \<Rightarrow> 'a t4 \<Rightarrow> 'a t4 \<Rightarrow> 'a t1 option \<Rightarrow> pyval \<Rightarrow> pyval
     \<Rightarrow> error + ('a ctx \<times> 'a t4)" where
  "forward ctx input_feats weight bias stride padding =
     (if size2 weight \<noteq> size3 weight then Inl AssertionError
      else if size1 input_feats \<noteq> size1 weight then Inl AssertionError
      else (case stride of
        PyTuple _ \<Rightarrow> Inl AssertionError
      | PyInt s \<Rightarrow>
          if \<not> s > 0 then Inl AssertionError
          else (case padding of
            PyTuple _ \<Rightarrow> Inl AssertionError
          | PyInt p \<Rightarrow>
              if \<not> p \<ge> 0 then Inl AssertionError
              else
                let kernel_size = size2 weight;
                    ctx = ctx\<lparr>ctx_stride := s, ctx_padding := p,
                              ctx_input_height := size2 input_feats,
                              ctx_input_width := size3 input_feats\<rparr>
                in if \<not> int kernel_size \<le> int (size2 input_feats) + 2 * p
                   then Inl AssertionError
                   else if \<not> int kernel_size \<le> int (size3 input_feats) + 2 * p
                   then Inl AssertionError
                   else forward_body ctx input_feats weight bias kernel_size s p)))"

text \<open>
  \<^verbatim>\<open>backward\<close> returns a 5-tuple, one gradient for each argument of \<^verbatim>\<open>forward\<close>;
  Python's \<^verbatim>\<open>None\<close> is \<open>None\<close>.
\<close>

definition backward ::
  "'a::comm_semiring_0 ctx \<Rightarrow> 'a t4
     \<Rightarrow> error + ('a t4 option \<times> 'a t4 option \<times> 'a t1 option \<times> 'a option \<times> 'a option)" where
  "backward ctx grad_output =
     (case ctx_saved_tensors ctx of (input_feats_unfold, weight_unfold, weight, bias) \<Rightarrow>
      let kernel_size = size2 weight;
          stride = ctx_stride ctx;
          padding = ctx_padding ctx;
          input_height = ctx_input_height ctx;
          input_width = ctx_input_width ctx
      in
      rbind (unfold grad_output 1 0 1) (\<lambda>grad_output_unfold.
      rbind (matmul32 (transpose12 grad_output_unfold) weight_unfold) (\<lambda>prod1.
      let grad_input_unfold = transpose12 prod1 in
      rbind (fold grad_input_unfold (input_height, input_width) kernel_size padding stride)
        (\<lambda>grad_input.
      rbind (matmul33 input_feats_unfold (transpose12 grad_output_unfold)) (\<lambda>prod2.
      let grad_weight_unfold = transpose12 prod2 in
      rbind (view4 (sum0 grad_weight_unfold) kernel_size) (\<lambda>grad_weight.
      let grad_bias =
            (if bias \<noteq> None \<and> fst (snd (snd (ctx_needs_input_grad ctx)))
             then Some (sum023 grad_output) else None)
      in Inr (Some grad_input, Some grad_weight, grad_bias, None, None)))))))"

section \<open>The wrapper: \<^verbatim>\<open>CustomConv2d\<close>\<close>

record 'a CustomConv2d =
  self_in_channels :: int
  self_out_channels :: int
  self_kernel_size :: int
  self_stride :: int
  self_padding :: int
  self_dilation :: pyval
  self_groups :: pyval
  self_weight :: "'a t4"
  self_bias :: "'a t1 option"

text \<open>
  \<^verbatim>\<open>torch.Tensor(a, b, c, d)\<close> allocates storage that the initialisers then fill. The
  values they draw are the stream \<open>rng\<close> (their distribution is not modelled): the
  weight takes the first \<open>a * b * c * d\<close> samples in row-major order, the bias the
  next ones. The shape of \<^verbatim>\<open>self.weight\<close> is
  \<open>(out_channels, in_channels, kernel_size, kernel_size)\<close> by construction, so
  \<open>fan_in = in_channels * kernel_size * kernel_size\<close>.
\<close>

definition Tensor4 :: "nat \<Rightarrow> nat \<Rightarrow> nat \<Rightarrow> nat \<Rightarrow> 'a::zero t4" where
  "Tensor4 a b c d = replicate a (replicate b (replicate c (replicate d 0)))"

definition kaiming_uniform :: "(nat \<Rightarrow> 'a) \<Rightarrow> nat \<Rightarrow> nat \<Rightarrow> nat \<Rightarrow> nat \<Rightarrow> 'a t4" where
  "kaiming_uniform rng a b c d =
     tab a (\<lambda>i. tab b (\<lambda>j. tab c (\<lambda>k. tab d (\<lambda>l. rng (((i * b + j) * c + k) * d + l)))))"

definition reset_parameters ::
  "(nat \<Rightarrow> 'a) \<Rightarrow> 'a CustomConv2d \<Rightarrow> error + 'a CustomConv2d" where
  "reset_parameters rng self =
     (let co = nat (self_out_channels self);
          ci = nat (self_in_channels self);
          k = nat (self_kernel_size self);
          self = self\<lparr>self_weight := kaiming_uniform rng co ci k k\<rparr>
      in case self_bias self of
           None \<Rightarrow> Inr self
         | Some b \<Rightarrow>
             let fan_in = ci * k * k
             in if fan_in = 0 then Inl ZeroDivisionError
                else Inr (self\<lparr>self_bias :=
                            Some (tab (length b) (\<lambda>i. rng (co * ci * k * k + i)))\<rparr>))"

definition CustomConv2d_init ::
  "(nat \<Rightarrow> 'a::zero) \<Rightarrow> int \<Rightarrow> int \<Rightarrow> pyval \<Rightarrow> pyval \<Rightarrow> pyval \<Rightarrow> pyval \<Rightarrow> pyval \<Rightarrow> bool
     \<Rightarrow> error + 'a CustomConv2d" where
  "CustomConv2d_init rng in_channels out_channels kernel_size stride padding dilation groups bias =
     (case kernel_size of
        PyTuple _ \<Rightarrow> Inl AssertionError
      | PyInt k \<Rightarrow>
     (case stride of
        PyTuple _ \<Rightarrow> Inl AssertionError
      | PyInt s \<Rightarrow>
     (case padding of
        PyTuple _ \<Rightarrow> Inl AssertionError
      | PyInt p \<Rightarrow>
          if out_channels < 0 \<or> in_channels < 0 \<or> k < 0 then Inl RuntimeError
          else reset_parameters rng
                 \<lparr>self_in_channels = in_channels, self_out_channels = out_channels,
                  self_kernel_size = k, self_stride = s, self_padding = p,
                  self_dilation = dilation, self_groups = groups,
                  self_weight = Tensor4 (nat out_channels) (nat in_channels) (nat k) (nat k),
                  self_bias = (if bias then Some (replicate (nat out_channels) 0) else None)\<rparr>)))"

definition CustomConv2d_forward ::
  "'a::comm_semiring_0 CustomConv2d \<Rightarrow> 'a ctx \<Rightarrow> 'a t4 \<Rightarrow> error + ('a ctx \<times> 'a t4)" where
  "CustomConv2d_forward self ctx input =
     forward ctx input (self_weight self) (self_bias self)
       (PyInt (self_stride self)) (PyInt (self_padding self))"

section \<open>What the specification asks for\<close>


text \<open>
  A valid call of the forward pass: input of shape \<open>(N, C_in, H, W)\<close>, weight of shape
  \<open>(C_out, C_in, K, K)\<close>, every extent positive, stride \<open>s > 0\<close>, padding \<open>p \<ge> 0\<close>
  (a natural number), and the kernel fits. The bias, of length \<open>C_out\<close>, is a
  hypothesis of its own in the theorems.
\<close>

definition valid_call ::
  "nat \<Rightarrow> nat \<Rightarrow> nat \<Rightarrow> nat \<Rightarrow> nat \<Rightarrow> nat \<Rightarrow> 'a t4 \<Rightarrow> 'a t4 \<Rightarrow> nat \<Rightarrow> nat \<Rightarrow> bool" where
  "valid_call N Ci H W Co K x w s p \<longleftrightarrow>
     0 < N \<and> 0 < Ci \<and> 0 < H \<and> 0 < W \<and> 0 < Co \<and> 0 < K \<and> 0 < s
     \<and> is_t4 N Ci H W x \<and> is_t4 Co Ci K K w \<and> K \<le> H + 2 * p \<and> K \<le> W + 2 * p"

text \<open>
  The reference convolution, written as the direct nested loop: for every batch
  element, output channel and output position, the sum over input channel and kernel
  offsets of weight times zero-padded input, plus the bias of the channel.
\<close>

definition conv2d_ref ::
  "'a::comm_semiring_0 t4 \<Rightarrow> 'a t4 \<Rightarrow> 'a t1 \<Rightarrow> nat \<Rightarrow> nat \<Rightarrow> 'a t4" where
  "conv2d_ref x w b s p =
     (let C = size1 x; H = size2 x; W = size3 x; K = size2 w
      in tab (length x) (\<lambda>n. tab (length w) (\<lambda>oc.
         tab (out_size H K p s) (\<lambda>i. tab (out_size W K p s) (\<lambda>j.
           sumto C (\<lambda>c. sumto K (\<lambda>ki. sumto K (\<lambda>kj.
             w ! oc ! c ! ki ! kj * pad_get (x ! n) H W p c (i * s + ki) (j * s + kj))))
           + b ! oc)))))"

subsection \<open>Patches, windows and the gradients\<close>

text \<open>
  Entry \<open>(r, l)\<close> of a column matrix belongs to pixel \<open>(c, y, x)\<close>: row \<open>r\<close> is
  channel \<open>c\<close>, and window \<open>l\<close> at the kernel offset of row \<open>r\<close> reads the padded
  position \<open>(y + p, x + p)\<close>.
\<close>

definition hits :: "nat \<Rightarrow> nat \<Rightarrow> nat \<Rightarrow> nat \<Rightarrow> nat \<Rightarrow> nat \<Rightarrow> nat \<Rightarrow> nat \<Rightarrow> nat \<Rightarrow> bool" where
  "hits k p s nW c y x r l \<longleftrightarrow>
     r div (k * k) = c \<and> (l div nW) * s + (r div k) mod k = y + p
       \<and> (l mod nW) * s + r mod k = x + p"

text \<open>The extracted patches that the forward pass saves for the backward pass.\<close>

definition patches :: "'a::zero t4 \<Rightarrow> nat \<Rightarrow> nat \<Rightarrow> nat \<Rightarrow> 'a t3" where
  "patches x k p s =
     tab (length x) (\<lambda>n. im2col (x ! n) (size1 x) (size2 x) (size3 x) k p s)"

text \<open>
  A backward call that matches a forward call: the context holds stride \<open>s\<close>, padding
  \<open>p\<close>, input extent \<open>H \<times> W\<close>, patches of shape \<open>(N, C_in K K, L)\<close>, a flat weight
  of shape \<open>(C_out, C_in K K)\<close> and the weight itself, and the incoming gradient has
  the shape of the forward output.
\<close>

definition backward_call ::
  "nat \<Rightarrow> nat \<Rightarrow> nat \<Rightarrow> nat \<Rightarrow> nat \<Rightarrow> nat \<Rightarrow> nat \<Rightarrow> nat \<Rightarrow> 'a ctx \<Rightarrow> 'a t4 \<Rightarrow> bool" where
  "backward_call N Ci H W Co K s p ctx grad_output \<longleftrightarrow>
     0 < N \<and> 0 < Ci \<and> 0 < Co \<and> 0 < K \<and> 0 < s \<and> K \<le> H + 2 * p \<and> K \<le> W + 2 * p
     \<and> ctx_stride ctx = int s \<and> ctx_padding ctx = int p
     \<and> ctx_input_height ctx = H \<and> ctx_input_width ctx = W
     \<and> (case ctx_saved_tensors ctx of (input_feats_unfold, weight_unfold, weight, bias) \<Rightarrow>
           is_t3 N (Ci * K * K) (out_size H K p s * out_size W K p s) input_feats_unfold
           \<and> is_t2 Co (Ci * K * K) weight_unfold \<and> is_t4 Co Ci K K weight)
     \<and> is_t4 N Co (out_size H K p s) (out_size W K p s) grad_output"

text \<open>
  The gradient of one patch entry, \<open>WeightFlat\<^sup>T \<times> GradOutputColumn\<close>: row \<open>r\<close> of the
  patch of the window at \<open>(i, j)\<close>.
\<close>

definition grad_patch :: "'a::comm_semiring_0 t2 \<Rightarrow> 'a t3 \<Rightarrow> nat \<Rightarrow> nat \<Rightarrow> nat \<Rightarrow> 'a" where
  "grad_patch weight_unfold gn r i j =
     sumto (length weight_unfold) (\<lambda>oc. gn ! oc ! i ! j * weight_unfold ! oc ! r)"

text \<open>
  The input gradient as the specification words it: every input pixel receives the
  sum, over all windows \<open>(i, j)\<close> and kernel offsets \<open>(ki, kj)\<close> whose receptive
  field covers the pixel, of the gradient of that patch entry.
\<close>

definition grad_input_ref ::
  "'a::comm_semiring_0 t2 \<Rightarrow> 'a t4 \<Rightarrow> nat \<Rightarrow> nat \<Rightarrow> nat \<Rightarrow> nat \<Rightarrow> nat \<Rightarrow> nat \<Rightarrow> 'a t4" where
  "grad_input_ref weight_unfold g Ci H W K s p =
     tab (length g) (\<lambda>n. tab Ci (\<lambda>c. tab H (\<lambda>y. tab W (\<lambda>x.
       sumto (size2 g) (\<lambda>i. sumto (size3 g) (\<lambda>j. sumto K (\<lambda>ki. sumto K (\<lambda>kj.
         if i * s + ki = y + p \<and> j * s + kj = x + p
         then grad_patch weight_unfold (g ! n) (c * K * K + ki * K + kj) i j else 0))))))))"

text \<open>
  The weight gradient as the specification words it: for each output channel the
  sum over batch and window positions of patch entry times output gradient,
  reshaped to \<open>(C_out, C_in, K, K)\<close>.
\<close>

definition grad_weight_ref ::
  "'a::comm_semiring_0 t3 \<Rightarrow> 'a t4 \<Rightarrow> nat \<Rightarrow> nat \<Rightarrow> 'a t4" where
  "grad_weight_ref input_feats_unfold g Ci K =
     tab (size1 g) (\<lambda>oc. tab Ci (\<lambda>c. tab K (\<lambda>ki. tab K (\<lambda>kj.
       sumto (length g) (\<lambda>n. sumto (size2 g * size3 g) (\<lambda>l.
         input_feats_unfold ! n ! (c * K * K + ki * K + kj) ! l
           * g ! n ! oc ! (l div size3 g) ! (l mod size3 g)))))))"

text \<open>
  The overlap scenario of the specification: one channel, a \<open>4 \<times> 4\<close> input holding
  \<open>1 \<dots> 16\<close>, an all-ones \<open>3 \<times> 3\<close> kernel, stride 1, no padding. This is the context
  the forward pass leaves, and an output gradient that tells the four windows apart.
\<close>

definition overlap_ctx :: "int ctx" where
  "overlap_ctx =
     \<lparr>ctx_stride = 1, ctx_padding = 0, ctx_input_height = 4, ctx_input_width = 4,
      ctx_saved_tensors =
        ([[[1, 2, 5, 6], [2, 3, 6, 7], [3, 4, 7, 8],
           [5, 6, 9, 10], [6, 7, 10, 11], [7, 8, 11, 12],
           [9, 10, 13, 14], [10, 11, 14, 15], [11, 12, 15, 16]]],
         [[1, 1, 1, 1, 1, 1, 1, 1, 1]],
         [[[[1, 1, 1], [1, 1, 1], [1, 1, 1]]]],
         Some [0]),
      ctx_needs_input_grad = (True, True, True, False, False)\<rparr>"

definition overlap_grad :: "int t4" where
  "overlap_grad = [[[[1, 10], [100, 1000]]]]"

section \<open>Basic facts\<close>

lemma length_tab [simp]: "length (tab n f) = n"
  by (simp add: tab_def)

lemma nth_tab [simp]: "i < n \<Longrightarrow> tab n f ! i = f i"
  by (simp add: tab_def)

lemma tab_0 [simp]: "tab 0 f = []"
  by (simp add: tab_def)

lemma tab_eq_Nil [simp]: "tab n f = [] \<longleftrightarrow> n = 0"
  by (simp add: tab_def)

lemma tab_Cons: "0 < n \<Longrightarrow> tab n f = f 0 # map f [1..<n]"
  by (simp add: tab_def upt_conv_Cons)

lemma size1_tab [simp]: "0 < n \<Longrightarrow> size1 (tab n f) = length (f 0)"
  by (simp add: size1_def tab_Cons)

lemma size2_tab [simp]: "0 < n \<Longrightarrow> size2 (tab n f) = size1 (f 0)"
  by (simp add: size2_def tab_Cons)

lemma size3_tab [simp]: "0 < n \<Longrightarrow> size3 (tab n f) = size2 (f 0)"
  by (simp add: size3_def tab_Cons)

lemma rbind_Inr [simp]: "rbind (Inr v) f = f v"
  by (simp add: rbind_def)

lemma rbind_Inl [simp]: "rbind (Inl e) f = Inl e"
  by (simp add: rbind_def)


section \<open>The sanity checks of the forward pass\<close>








lemma forward_without_bias_never_returns:
  "forward ctx x w None stride padding \<noteq> Inr r"
  by (cases stride; cases padding)
     (auto simp add: forward_def forward_body_def Let_def rbind_def split: sum.splits)

text \<open>
  Claim C3. The bias is documented as optional and the wrapper passes \<open>None\<close> when
  built with \<^verbatim>\<open>bias=False\<close>, but line 66 calls \<^verbatim>\<open>bias.expand\<close> without testing
  for \<open>None\<close>: on a valid input with the bias absent the forward pass raises
  instead of returning the convolution without a bias term.
\<close>

theorem forward_without_bias_raises:
  "forward (fresh_ctx (True, True, False, False, False))
     [[[[1, 1, 1], [1, 1, 1], [1, 1, 1 :: int]]]] [[[[1, 1], [1, 1]]]] None (PyInt 1) (PyInt 0)
   = Inl AttributeError"
  by code_simp

section \<open>The wrapper\<close>



lemma dilation_groups_unused:
  "CustomConv2d_forward (m\<lparr>self_dilation := dl, self_groups := gr\<rparr>) ctx x
     = CustomConv2d_forward m ctx x"
  by (simp add: CustomConv2d_forward_def)

lemma init_dilation_groups:
  "CustomConv2d_init rng ci co ks st pd dl gr b =
     map_sum id (\<lambda>m. m\<lparr>self_dilation := dl, self_groups := gr\<rparr>)
       (CustomConv2d_init rng ci co ks st pd (PyInt 1) (PyInt 1) b)"
  by (cases ks; cases st; cases pd; cases b)
     (simp_all add: CustomConv2d_init_def reset_parameters_def Let_def)

text \<open>
  Claim C9. Dilation and groups are stored and never read: building the wrapper with
  any values for them and then calling its forward pass gives the same result (the
  same error, or the same context and output) as building it with dilation 1 and
  groups 1 from the same initial parameter values.
\<close>

theorem wrapper_ignores_dilation_groups:
  "rbind (CustomConv2d_init rng ci co ks st pd dl gr b) (\<lambda>m. CustomConv2d_forward m ctx x)
   = rbind (CustomConv2d_init rng ci co ks st pd (PyInt 1) (PyInt 1) b)
       (\<lambda>m. CustomConv2d_forward m ctx x)"
  by (subst init_dilation_groups,
      cases "CustomConv2d_init rng ci co ks st pd (PyInt 1) (PyInt 1) b")
     (simp_all add: dilation_groups_unused)



section \<open>Sums and tabulated tensors\<close>

lemma tab_cong [cong]: "n = m \<Longrightarrow> (\<And>i. i < m \<Longrightarrow> f i = g i) \<Longrightarrow> tab n f = tab m g"
  by (simp add: tab_def)

lemma sumto_cong [cong]: "n = m \<Longrightarrow> (\<And>i. i < m \<Longrightarrow> f i = g i) \<Longrightarrow> sumto n f = sumto m g"
  unfolding sumto_def by (rule arg_cong [where f = sum_list]) simp

lemma map_tab: "map g (tab n f) = tab n (\<lambda>i. g (f i))"
  by (simp add: tab_def)

lemma tab_nth: "length xs = n \<Longrightarrow> tab n (\<lambda>i. xs ! i) = xs"
  by (auto simp add: tab_def map_nth)

lemma replicate_tab: "replicate n v = tab n (\<lambda>_. v)"
  by (simp add: tab_def map_replicate_const)

lemma map2_tab: "map2 f (tab n g) (tab n h) = tab n (\<lambda>i. f (g i) (h i))"
  by (rule nth_equalityI) simp_all

lemma sumto_0 [simp]: "sumto 0 f = 0"
  by (simp add: sumto_def)

lemma sumto_Suc [simp]: "sumto (Suc n) f = sumto n f + f n"
  by (simp add: sumto_def)

lemma sumto_zero [simp]: "sumto n (\<lambda>_. 0) = 0"
  by (induction n) simp_all

lemma sumto_add: "sumto n (\<lambda>i. f i + g i) = sumto n f + sumto n g"
  by (induction n) (simp_all add: algebra_simps)

lemma sumto_swap: "sumto n (\<lambda>i. sumto m (\<lambda>j. f i j)) = sumto m (\<lambda>j. sumto n (\<lambda>i. f i j))"
  by (induction n) (simp_all add: sumto_add)

lemma sumto_delta: "sumto n (\<lambda>i. if i = a then f i else 0) = (if a < n then f a else 0)"
  by (induction n) (auto simp add: less_Suc_eq)

lemma sumto_add_offset: "sumto (a + b) f = sumto a f + sumto b (\<lambda>j. f (a + j))"
  by (induction b) (simp_all add: add.assoc)

lemma sumto_mult: "sumto (a * b) f = sumto a (\<lambda>i. sumto b (\<lambda>j. f (i * b + j)))"
proof (induction a)
  case 0
  then show ?case by simp
next
  case (Suc a)
  have "sumto (Suc a * b) f = sumto (a * b + b) f" by (simp add: add.commute)
  also have "\<dots> = sumto (a * b) f + sumto b (\<lambda>j. f (a * b + j))" by (rule sumto_add_offset)
  finally show ?case by (simp add: Suc)
qed

lemma sum_list_product:
  "sum_list (map f (List.product xs ys)) = sum_list (map (\<lambda>x. sum_list (map (\<lambda>y. f (x, y)) ys)) xs)"
  by (induction xs) (simp_all add: comp_def)

lemma sumto_product:
  "sum_list (map f (List.product [0..<a] [0..<b])) = sumto a (\<lambda>r. sumto b (\<lambda>l. f (r, l)))"
  by (simp add: sum_list_product sumto_def)

subsection \<open>Shapes\<close>

lemma is_t2_length: "is_t2 a b t \<Longrightarrow> length t = a"
  by (simp add: is_t2_def)
lemma is_t3_length: "is_t3 a b c t \<Longrightarrow> length t = a"
  by (simp add: is_t3_def)
lemma is_t4_length: "is_t4 a b c d t \<Longrightarrow> length t = a"
  by (simp add: is_t4_def)

lemma is_t2_nth: "is_t2 a b t \<Longrightarrow> i < a \<Longrightarrow> length (t ! i) = b"
  by (simp add: is_t2_def list_all_length)
lemma is_t3_nth: "is_t3 a b c t \<Longrightarrow> i < a \<Longrightarrow> is_t2 b c (t ! i)"
  by (simp add: is_t3_def list_all_length)
lemma is_t4_nth: "is_t4 a b c d t \<Longrightarrow> i < a \<Longrightarrow> is_t3 b c d (t ! i)"
  by (simp add: is_t4_def list_all_length)

lemma is_t2_size1: "is_t2 a b t \<Longrightarrow> 0 < a \<Longrightarrow> size1 t = b"
  by (cases t) (auto simp add: is_t2_def size1_def)
lemma is_t3_size1: "is_t3 a b c t \<Longrightarrow> 0 < a \<Longrightarrow> size1 t = b"
  by (cases t) (auto simp add: is_t3_def is_t2_def size1_def)
lemma is_t3_size2: "is_t3 a b c t \<Longrightarrow> 0 < a \<Longrightarrow> 0 < b \<Longrightarrow> size2 t = c"
  by (cases t) (auto simp add: is_t3_def size2_def is_t2_size1)
lemma is_t4_size1: "is_t4 a b c d t \<Longrightarrow> 0 < a \<Longrightarrow> size1 t = b"
  by (cases t) (auto simp add: is_t4_def is_t3_def size1_def)
lemma is_t4_size2: "is_t4 a b c d t \<Longrightarrow> 0 < a \<Longrightarrow> 0 < b \<Longrightarrow> size2 t = c"
  by (cases t) (auto simp add: is_t4_def size2_def is_t3_size1)
lemma is_t4_size3: "is_t4 a b c d t \<Longrightarrow> 0 < a \<Longrightarrow> 0 < b \<Longrightarrow> 0 < c \<Longrightarrow> size3 t = d"
  by (cases t) (auto simp add: is_t4_def size3_def is_t3_size2)

lemma is_t2_tab: "is_t2 a b (tab a f) \<longleftrightarrow> (\<forall>i<a. length (f i) = b)"
  by (simp add: is_t2_def list_all_length)
lemma is_t3_tab: "is_t3 a b c (tab a f) \<longleftrightarrow> (\<forall>i<a. is_t2 b c (f i))"
  by (simp add: is_t3_def list_all_length)
lemma is_t4_tab: "is_t4 a b c d (tab a f) \<longleftrightarrow> (\<forall>i<a. is_t3 b c d (f i))"
  by (simp add: is_t4_def list_all_length)

lemma is_t2_tab_form: "is_t2 a b t \<Longrightarrow> t = tab a (\<lambda>i. tab b (\<lambda>j. t ! i ! j))"
  by (rule nth_equalityI) (simp_all add: is_t2_length is_t2_nth tab_nth)

lemma t2d_tab: "0 < a \<Longrightarrow> t2d (tab a (\<lambda>i. tab b (f i))) = tab b (\<lambda>j. tab a (\<lambda>i. f i j))"
  by (simp add: t2d_def)

lemma mm_tab:
  "0 < n \<Longrightarrow> mm (tab a (\<lambda>i. tab n (f i))) (tab n (\<lambda>k. tab b (g k)))
     = tab a (\<lambda>i. tab b (\<lambda>j. sumto n (\<lambda>k. f i k * g k j)))"
  by (simp add: mm_def)

lemma concat_rect:
  "is_t2 a b m \<Longrightarrow> concat m = tab (a * b) (\<lambda>i. m ! (i div b) ! (i mod b))"
proof (induction m arbitrary: a)
  case Nil
  then show ?case by (simp add: is_t2_def)
next
  case (Cons r m)
  then obtain a' where a: "a = Suc a'" and r: "length r = b" and m: "is_t2 a' b m"
    by (auto simp add: is_t2_def)
  have "concat (r # m) = r @ tab (a' * b) (\<lambda>i. m ! (i div b) ! (i mod b))"
    using Cons.IH [OF m] by simp
  also have "\<dots> = tab (a * b) (\<lambda>i. (r # m) ! (i div b) ! (i mod b))"
  proof (rule nth_equalityI)
    show "length (r @ tab (a' * b) (\<lambda>i. m ! (i div b) ! (i mod b)))
            = length (tab (a * b) (\<lambda>i. (r # m) ! (i div b) ! (i mod b)))"
      by (simp add: a r)
  next
    fix i assume "i < length (r @ tab (a' * b) (\<lambda>i. m ! (i div b) ! (i mod b)))"
    then have i: "i < b + a' * b" by (simp add: r)
    show "(r @ tab (a' * b) (\<lambda>i. m ! (i div b) ! (i mod b))) ! i
            = tab (a * b) (\<lambda>i. (r # m) ! (i div b) ! (i mod b)) ! i"
    proof (cases "i < b")
      case True
      then show ?thesis using i by (simp add: nth_append r a)
    next
      case False
      have b: "0 < b" using i False by (cases b) simp_all
      have dm: "i div b = Suc ((i - b) div b)" "i mod b = (i - b) mod b"
        using False b by (simp_all add: le_div_geq le_mod_geq)
      have "i - b < a' * b" using i False by simp
      then show ?thesis using i False
        by (simp add: nth_append r a dm)
    qed
  qed
  finally show ?case .
qed

lemma flat_index:
  fixes r k :: nat
  shows "(r mod (k * k)) div k = (r div k) mod k" "(r mod (k * k)) mod k = r mod k"
  by (cases "k = 0"; simp add: mod_mult2_eq)+

lemma filter_flat:
  assumes "is_t3 c k k f"
  shows "concat (map concat f)
           = tab (c * k * k) (\<lambda>r. f ! (r div (k * k)) ! ((r div k) mod k) ! (r mod k))"
proof -
  have len: "length f = c" using assms by (rule is_t3_length)
  have row: "concat (f ! i) = tab (k * k) (\<lambda>j. f ! i ! (j div k) ! (j mod k))" if "i < c" for i
    using is_t3_nth [OF assms that] by (rule concat_rect)
  have "is_t2 c (k * k) (map concat f)"
    by (simp add: is_t2_def list_all_length len row)
  then have "concat (map concat f)
      = tab (c * (k * k)) (\<lambda>r. map concat f ! (r div (k * k)) ! (r mod (k * k)))"
    by (rule concat_rect)
  also have "\<dots> = tab (c * k * k) (\<lambda>r. f ! (r div (k * k)) ! ((r div k) mod k) ! (r mod k))"
  proof (rule tab_cong)
    show "c * (k * k) = c * k * k" by simp
  next
    fix r assume r: "r < c * k * k"
    then have kk: "0 < k * k" by (cases "k * k") simp_all
    have d: "r div (k * k) < c"
      using r kk by (simp add: less_mult_imp_div_less mult.assoc)
    have m: "r mod (k * k) < k * k" using kk by simp
    show "map concat f ! (r div (k * k)) ! (r mod (k * k))
            = f ! (r div (k * k)) ! ((r div k) mod k) ! (r mod k)"
      using d m by (simp add: len row flat_index)
  qed
  finally show ?thesis .
qed

lemma view2_tab:
  assumes "is_t4 co ci k k w"
  shows "view2 w = tab co (\<lambda>oc. tab (ci * k * k)
           (\<lambda>r. w ! oc ! (r div (k * k)) ! ((r div k) mod k) ! (r mod k)))"
proof -
  have "view2 w = map (\<lambda>f. concat (map concat f)) (tab co (\<lambda>oc. w ! oc))"
    by (simp add: view2_def tab_nth is_t4_length [OF assms])
  also have "\<dots> = tab co (\<lambda>oc. concat (map concat (w ! oc)))"
    by (simp add: map_tab)
  also have "\<dots> = tab co (\<lambda>oc. tab (ci * k * k)
           (\<lambda>r. w ! oc ! (r div (k * k)) ! ((r div k) mod k) ! (r mod k)))"
    by (rule tab_cong) (simp_all add: filter_flat [OF is_t4_nth [OF assms]])
  finally show ?thesis .
qed

subsection \<open>The scatter of \<^verbatim>\<open>fold\<close>\<close>

lemma nth_update_any: "xs[i := v] ! j = (if i = j \<and> i < length xs then v else xs ! j)"
  by (cases "i < length xs") (auto simp add: nth_list_update list_update_beyond)

lemma col2im_step_shape:
  assumes "is_t3 C H W im"
  shows "is_t3 C H W (col2im_step cols H W k p s nW im rl)"
proof (cases rl)
  case (Pair r l)
  show ?thesis
    using assms
    by (auto simp add: Pair col2im_step_def Let_def is_t3_def is_t2_def list_all_length
        nth_update_any)
qed

lemma col2im_step_nth:
  assumes im: "is_t3 C H W im" and c: "c < C" and y: "y < H" and x: "x < W"
    and r: "r div (k * k) < C"
  shows "col2im_step cols H W k p s nW im (r, l) ! c ! y ! x
           = im ! c ! y ! x
             + (if r div (k * k) = c \<and> (l div nW) * s + (r div k) mod k = y + p
                   \<and> (l mod nW) * s + r mod k = x + p
                then cols ! r ! l else 0)"
proof -
  have len: "length im = C" "\<And>i. i < C \<Longrightarrow> length (im ! i) = H"
    "\<And>i j. i < C \<Longrightarrow> j < H \<Longrightarrow> length (im ! i ! j) = W"
    using im by (auto simp add: is_t3_def is_t2_def list_all_length)
  show ?thesis
    using c y x r
    by (auto simp add: col2im_step_def Let_def len nth_list_update)
qed

lemma col2im_fold:
  assumes "is_t3 C H W im" and "\<forall>rl\<in>set ps. fst rl div (k * k) < C"
  shows "is_t3 C H W (foldl (col2im_step cols H W k p s nW) im ps)
       \<and> (\<forall>c<C. \<forall>y<H. \<forall>x<W. foldl (col2im_step cols H W k p s nW) im ps ! c ! y ! x
            = im ! c ! y ! x
              + sum_list (map (\<lambda>rl. if fst rl div (k * k) = c
                    \<and> (snd rl div nW) * s + (fst rl div k) mod k = y + p
                    \<and> (snd rl mod nW) * s + fst rl mod k = x + p
                  then cols ! fst rl ! snd rl else 0) ps))"
  using assms
proof (induction ps arbitrary: im)
  case Nil
  then show ?case by simp
next
  case (Cons rl ps)
  obtain r l where rl: "rl = (r, l)" by (cases rl)
  have sh: "is_t3 C H W (col2im_step cols H W k p s nW im rl)"
    using Cons.prems(1) by (rule col2im_step_shape)
  have r: "r div (k * k) < C" using Cons.prems(2) by (simp add: rl)
  have rest: "\<forall>rl\<in>set ps. fst rl div (k * k) < C" using Cons.prems(2) by simp
  show ?case
    using Cons.IH [OF sh rest]
    by (simp add: rl col2im_step_nth [OF Cons.prems(1) _ _ _ r] add.assoc)
qed

lemma zeros3_shape: "is_t3 C H W (zeros3 C H W)"
  by (simp add: zeros3_def is_t3_def is_t2_def list_all_length)

lemma zeros3_nth: "c < C \<Longrightarrow> y < H \<Longrightarrow> x < W \<Longrightarrow> zeros3 C H W ! c ! y ! x = 0"
  by (simp add: zeros3_def)

lemma is_t3_eq_tab:
  assumes "is_t3 C H W t" and "\<And>c y x. c < C \<Longrightarrow> y < H \<Longrightarrow> x < W \<Longrightarrow> t ! c ! y ! x = f c y x"
  shows "t = tab C (\<lambda>c. tab H (\<lambda>y. tab W (f c y)))"
proof -
  have len: "length t = C" "\<And>i. i < C \<Longrightarrow> length (t ! i) = H"
    "\<And>i j. i < C \<Longrightarrow> j < H \<Longrightarrow> length (t ! i ! j) = W"
    using assms(1) by (auto simp add: is_t3_def is_t2_def list_all_length)
  show ?thesis
    by (rule nth_equalityI, simp add: len, rule nth_equalityI, simp add: len,
        rule nth_equalityI, simp add: len, simp add: len assms(2))
qed

lemma col2im_tab:
  "col2im cols C H W k p s =
     tab C (\<lambda>c. tab H (\<lambda>y. tab W (\<lambda>x.
       sumto (C * k * k) (\<lambda>r. sumto (out_size H k p s * out_size W k p s) (\<lambda>l.
         if hits k p s (out_size W k p s) c y x r l then cols ! r ! l else 0)))))"
proof -
  let ?nW = "out_size W k p s"
  let ?ps = "List.product [0..<C * k * k] [0..<out_size H k p s * ?nW]"
  have rng: "\<forall>rl\<in>set ?ps. fst rl div (k * k) < C"
  proof
    fix rl assume "rl \<in> set ?ps"
    then have r: "fst rl < C * k * k" by auto
    then have "0 < k * k" by (cases "k * k") simp_all
    then show "fst rl div (k * k) < C"
      using r by (simp add: less_mult_imp_div_less mult.assoc)
  qed
  note F = col2im_fold [OF zeros3_shape rng, where cols = cols and p = p and s = s
      and nW = ?nW and H = H and W = W]
  show ?thesis
    unfolding col2im_def Let_def
    by (rule is_t3_eq_tab)
       (use F in \<open>simp_all add: zeros3_nth sumto_product hits_def cong: if_cong\<close>)
qed

lemma map_nth_tab: "length xs = n \<Longrightarrow> map g xs = tab n (\<lambda>i. g (xs ! i))"
  by (rule nth_equalityI) simp_all

lemma unfold_tab:
  assumes "is_t4 N C H W x" "0 < N" "0 < C" "0 < H" "0 < k" "0 < s"
    "k \<le> H + 2 * p" "k \<le> W + 2 * p"
  shows "unfold x k (int p) (int s) = Inr (tab N (\<lambda>n. im2col (x ! n) C H W k p s))"
proof -
  have "map (\<lambda>img. im2col img C H W k p s) x = tab N (\<lambda>n. im2col (x ! n) C H W k p s)"
    by (rule map_nth_tab) (rule is_t4_length [OF assms(1)])
  then show ?thesis
    using assms
    by (simp add: unfold_def Let_def is_t4_size1 [OF assms(1)] is_t4_size2 [OF assms(1)]
        is_t4_size3 [OF assms(1)])
qed

lemma fold_tab:
  assumes "0 < N" "0 < C" "0 < k" "0 < s" "k \<le> H + 2 * p" "k \<le> W + 2 * p"
    and cols: "is_t3 N (C * k * k) (out_size H k p s * out_size W k p s) cols"
  shows "fold cols (H, W) k (int p) (int s) = Inr (tab N (\<lambda>n. col2im (cols ! n) C H W k p s))"
proof -
  have "map (\<lambda>c. col2im c C H W k p s) cols = tab N (\<lambda>n. col2im (cols ! n) C H W k p s)"
    by (rule map_nth_tab) (rule is_t3_length [OF cols])
  moreover have "size1 cols = C * k * k" "size2 cols = out_size H k p s * out_size W k p s"
    using assms by (simp_all add: is_t3_size1 [OF cols] is_t3_size2 [OF cols])
  ultimately show ?thesis
    using assms(1-6) by (simp add: fold_def Let_def mult.assoc)
qed

lemma matmul32_tab:
  assumes "0 < N" "0 < a" "0 < n"
  shows "matmul32 (tab N (\<lambda>b. tab a (\<lambda>i. tab n (f b i)))) (tab n (\<lambda>k. tab c (g k)))
           = Inr (tab N (\<lambda>b. tab a (\<lambda>i. tab c (\<lambda>j. sumto n (\<lambda>k. f b i k * g k j)))))"
  using assms by (simp add: matmul32_def map_tab mm_tab)

lemma matmul33_tab:
  assumes "0 < N" "0 < a" "0 < n"
  shows "matmul33 (tab N (\<lambda>b. tab a (\<lambda>i. tab n (f b i)))) (tab N (\<lambda>b. tab n (\<lambda>k. tab c (g b k))))
           = Inr (tab N (\<lambda>b. tab a (\<lambda>i. tab c (\<lambda>j. sumto n (\<lambda>k. f b i k * g b k j)))))"
proof -
  have "(if N = 1 then 0 else b) = b" if "b < N" for b using that by auto
  then show ?thesis
    using assms by (simp add: matmul33_def Let_def mm_tab)
qed

lemma transpose12_tab:
  "0 < a \<Longrightarrow> transpose12 (tab N (\<lambda>n. tab a (\<lambda>i. tab b (f n i))))
     = tab N (\<lambda>n. tab b (\<lambda>j. tab a (\<lambda>i. f n i j)))"
  by (simp add: transpose12_def map_tab t2d_tab)

lemma div_mod_row:
  fixes l W :: nat
  assumes "x < W"
  shows "l div W = y \<and> l mod W = x \<longleftrightarrow> l = y * W + x"
proof
  assume "l div W = y \<and> l mod W = x"
  then show "l = y * W + x" by (metis div_mult_mod_eq)
next
  assume "l = y * W + x"
  then show "l div W = y \<and> l mod W = x" using assms by simp
qed

lemma sumto_delta_pair:
  "sumto n (\<lambda>r. sumto m (\<lambda>l. if r = a \<and> l = b then f r l else 0))
     = (if a < n \<and> b < m then f a b else 0)"
proof -
  have "sumto m (\<lambda>l. if r = a \<and> l = b then f r l else 0)
          = (if r = a then (if b < m then f r b else 0) else 0)" for r
    by (cases "r = a") (simp_all add: sumto_delta)
  then show ?thesis by (simp add: sumto_delta)
qed

lemma fold_reshape:
  assumes "0 < N" "0 < C" "0 < H" "0 < W"
  shows "fold (tab N (\<lambda>n. tab C (\<lambda>c. tab (H * W) (f n c)))) (H, W) 1 0 1
           = Inr (tab N (\<lambda>n. tab C (\<lambda>c. tab H (\<lambda>y. tab W (\<lambda>x. f n c (y * W + x))))))"
proof -
  have os: "out_size H (Suc 0) 0 (Suc 0) = H" "out_size W (Suc 0) 0 (Suc 0) = W"
    using assms by (simp_all add: out_size_def)
  have sh: "is_t3 N (C * 1 * 1) (out_size H 1 0 1 * out_size W 1 0 1)
              (tab N (\<lambda>n. tab C (\<lambda>c. tab (H * W) (f n c))))"
    using assms by (simp add: out_size_def is_t3_tab is_t2_tab)
  have "fold (tab N (\<lambda>n. tab C (\<lambda>c. tab (H * W) (f n c)))) (H, W) 1 (int 0) (int 1)
          = Inr (tab N (\<lambda>n. col2im (tab N (\<lambda>n. tab C (\<lambda>c. tab (H * W) (f n c))) ! n) C H W 1 0 1))"
    using assms by (intro fold_tab [OF _ _ _ _ _ _ sh]) simp_all
  also have "\<dots> = Inr (tab N (\<lambda>n. tab C (\<lambda>c. tab H (\<lambda>y. tab W (\<lambda>x. f n c (y * W + x))))))"
  proof -
    have "sumto C (\<lambda>r. sumto (H * W) (\<lambda>l.
            if hits 1 0 1 W c y x r l then tab C (\<lambda>c. tab (H * W) (f n c)) ! r ! l else 0))
          = f n c (y * W + x)"
      if "c < C" "y < H" "x < W" for n c y x
    proof -
      have "y * W + x < H * W"
      proof -
        have "y * W + x < y * W + W" using that by simp
        also have "\<dots> = Suc y * W" by simp
        also have "\<dots> \<le> H * W" using that by (intro mult_le_mono1) simp
        finally show ?thesis .
      qed
      moreover have "hits 1 0 1 W c y x r l \<longleftrightarrow> r = c \<and> l = y * W + x" for r l
        using div_mod_row [OF that(3), of l y] by (simp add: hits_def)
      ultimately show ?thesis
        using that by (simp add: sumto_delta_pair)
    qed
    then show ?thesis
      by (simp add: col2im_tab os)
  qed
  finally show ?thesis by simp
qed

section \<open>The forward pass computes the reference convolution\<close>

lemma sumto_flat3:
  "sumto (c * k * k) g = sumto c (\<lambda>a. sumto k (\<lambda>i. sumto k (\<lambda>j. g ((a * k + i) * k + j))))"
  by (simp add: sumto_mult)

lemma flat3_index:
  fixes a i j k :: nat
  assumes "i < k" "j < k"
  shows "((a * k + i) * k + j) div (k * k) = a"
    "(((a * k + i) * k + j) div k) mod k = i"
    "((a * k + i) * k + j) mod k = j"
  using assms by (simp_all add: div_mult2_eq)

lemma out_dim_nat:
  assumes "k \<le> H + 2 * p"
  shows "nat ((int H + 2 * int p - int k) div int s + 1) = out_size H k p s"
proof -
  have "int H + 2 * int p - int k = int (H + 2 * p - k)" using assms by simp
  also have "\<dots> div int s = int ((H + 2 * p - k) div s)" by (rule zdiv_int [symmetric])
  finally have "(int H + 2 * int p - int k) div int s + 1 = int (out_size H k p s)"
    by (simp only: out_size_def of_nat_add of_nat_1)
  then show ?thesis by (simp only: nat_int)
qed

lemma out_size_pos [simp]: "0 < out_size H k p s"
  by (simp add: out_size_def)

lemma window_index:
  fixes i j nW :: nat
  assumes "j < nW"
  shows "(i * nW + j) div nW = i" "(i * nW + j) mod nW = j"
  using assms by simp_all

lemma bias_unfold_tab:
  assumes "length b = Co"
  shows "expand3 (unsqueeze2 (replicate N b)) L = tab N (\<lambda>n. tab Co (\<lambda>oc. tab L (\<lambda>l. b ! oc)))"
proof -
  have "map (\<lambda>r. replicate L (r ! 0)) (map (\<lambda>v. [v]) b) = tab Co (\<lambda>oc. tab L (\<lambda>l. b ! oc))"
    by (rule nth_equalityI) (simp_all add: assms replicate_tab)
  then show ?thesis
    by (simp add: expand3_def unsqueeze2_def replicate_tab map_tab)
qed

lemma add3_tab:
  "add3 (tab N (\<lambda>n. tab C (\<lambda>c. tab L (f n c)))) (tab N (\<lambda>n. tab C (\<lambda>c. tab L (g n c))))
     = tab N (\<lambda>n. tab C (\<lambda>c. tab L (\<lambda>l. f n c l + g n c l)))"
  by (simp add: add3_def map2_tab)

lemma conv_sum_flat:
  fixes w :: "'a::comm_semiring_0 t4"
  assumes "j < nW"
  shows "sumto (Ci * K * K) (\<lambda>r. pad_get xn H W p (r div (K * K))
            (((i * nW + j) div nW) * s + (r div K) mod K)
            (((i * nW + j) mod nW) * s + r mod K)
          * w ! oc ! (r div (K * K)) ! ((r div K) mod K) ! (r mod K))
       = sumto Ci (\<lambda>c. sumto K (\<lambda>ki. sumto K (\<lambda>kj.
           w ! oc ! c ! ki ! kj * pad_get xn H W p c (i * s + ki) (j * s + kj))))"
proof -
  have inner: "sumto K (\<lambda>kj. pad_get xn H W p (((c * K + ki) * K + kj) div (K * K))
            (((i * nW + j) div nW) * s + (((c * K + ki) * K + kj) div K) mod K)
            (((i * nW + j) mod nW) * s + ((c * K + ki) * K + kj) mod K)
          * w ! oc ! (((c * K + ki) * K + kj) div (K * K))
              ! ((((c * K + ki) * K + kj) div K) mod K) ! (((c * K + ki) * K + kj) mod K))
       = sumto K (\<lambda>kj. w ! oc ! c ! ki ! kj * pad_get xn H W p c (i * s + ki) (j * s + kj))"
    if "ki < K" for c ki
  proof (rule sumto_cong [OF refl])
    fix kj assume "kj < K"
    note ix = flat3_index [OF that this, of c] window_index [OF assms, of i]
    show "pad_get xn H W p (((c * K + ki) * K + kj) div (K * K))
            (((i * nW + j) div nW) * s + (((c * K + ki) * K + kj) div K) mod K)
            (((i * nW + j) mod nW) * s + ((c * K + ki) * K + kj) mod K)
          * w ! oc ! (((c * K + ki) * K + kj) div (K * K))
              ! ((((c * K + ki) * K + kj) div K) mod K) ! (((c * K + ki) * K + kj) mod K)
        = w ! oc ! c ! ki ! kj * pad_get xn H W p c (i * s + ki) (j * s + kj)"
      unfolding ix by (rule mult.commute)
  qed
  show ?thesis
    unfolding sumto_flat3
  proof (rule sumto_cong [OF refl], rule sumto_cong [OF refl])
    fix c ki assume "ki < K"
    then show "sumto K (\<lambda>kj. pad_get xn H W p (((c * K + ki) * K + kj) div (K * K))
            (((i * nW + j) div nW) * s + (((c * K + ki) * K + kj) div K) mod K)
            (((i * nW + j) mod nW) * s + ((c * K + ki) * K + kj) mod K)
          * w ! oc ! (((c * K + ki) * K + kj) div (K * K))
              ! ((((c * K + ki) * K + kj) div K) mod K) ! (((c * K + ki) * K + kj) mod K))
       = sumto K (\<lambda>kj. w ! oc ! c ! ki ! kj * pad_get xn H W p c (i * s + ki) (j * s + kj))"
      by (rule inner)
  qed
qed

lemma forward_body_result:
  assumes v: "valid_call N Ci H W Co K x w s p" and b: "length b = Co"
    and c: "ctx_input_height ctx = H" "ctx_input_width ctx = W" "ctx_padding ctx = int p"
  shows "forward_body ctx x w (Some b) K (int s) (int p)
           = Inr (ctx\<lparr>ctx_saved_tensors := (patches x K p s, view2 w, w, Some b)\<rparr>,
                  conv2d_ref x w b s p)"
proof -
  let ?nH = "out_size H K p s" and ?nW = "out_size W K p s"
  let ?P = "\<lambda>n r l. pad_get (x ! n) H W p (r div (K * K))
             ((l div ?nW) * s + (r div K) mod K) ((l mod ?nW) * s + r mod K)"
  let ?Wf = "\<lambda>oc r. w ! oc ! (r div (K * K)) ! ((r div K) mod K) ! (r mod K)"
  from v have pos: "0 < N" "0 < Ci" "0 < H" "0 < W" "0 < Co" "0 < K" "0 < s"
    and x: "is_t4 N Ci H W x" and w: "is_t4 Co Ci K K w"
    and fit: "K \<le> H + 2 * p" "K \<le> W + 2 * p"
    by (simp_all add: valid_call_def)
  have ckk: "0 < Ci * K * K" using pos by simp
  have L: "0 < ?nH * ?nW" by simp
  have szx: "length x = N" "size1 x = Ci" "size2 x = H" "size3 x = W"
    using pos by (simp_all add: is_t4_length [OF x] is_t4_size1 [OF x] is_t4_size2 [OF x]
        is_t4_size3 [OF x])
  have szw: "length w = Co" "size2 w = K"
    using pos by (simp_all add: is_t4_length [OF w] is_t4_size2 [OF w])
  have U: "unfold x K (int p) (int s) = Inr (patches x K p s)"
    using unfold_tab [OF x pos(1,2,3,6,7) fit] by (simp add: patches_def szx)
  have Utab: "patches x K p s = tab N (\<lambda>n. tab (Ci * K * K) (\<lambda>r. tab (?nH * ?nW) (?P n r)))"
    by (simp add: patches_def szx im2col_def Let_def)
  have V: "view2 w = tab Co (\<lambda>oc. tab (Ci * K * K) (?Wf oc))"
    by (rule view2_tab [OF w])
  have M: "matmul32 (transpose12 (patches x K p s)) (t2d (view2 w))
             = Inr (tab N (\<lambda>n. tab (?nH * ?nW) (\<lambda>l. tab Co (\<lambda>oc.
                 sumto (Ci * K * K) (\<lambda>r. ?P n r l * ?Wf oc r)))))"
    unfolding Utab V transpose12_tab [OF ckk] t2d_tab [OF pos(5)]
    by (rule matmul32_tab [OF pos(1) L ckk])
  let ?S = "\<lambda>n oc l. sumto (Ci * K * K) (\<lambda>r. ?P n r l * ?Wf oc r)"
  let ?out = "tab N (\<lambda>n. tab Co (\<lambda>oc. tab (?nH * ?nW) (?S n oc)))"
  have T: "transpose12 (tab N (\<lambda>n. tab (?nH * ?nW) (\<lambda>l. tab Co (\<lambda>oc. ?S n oc l)))) = ?out"
    by (rule transpose12_tab [OF L])
  have so: "length ?out = N" "size1 ?out = Co" "size2 ?out = ?nH * ?nW"
    using pos by simp_all
  have E: "expand12 b (N, Co) = Inr (replicate N b)"
    by (simp add: expand12_def b)
  have A: "add3 ?out (expand3 (unsqueeze2 (replicate N b)) (?nH * ?nW))
             = tab N (\<lambda>n. tab Co (\<lambda>oc. tab (?nH * ?nW) (\<lambda>l. ?S n oc l + b ! oc)))"
    unfolding bias_unfold_tab [OF b] by (rule add3_tab)
  have F: "fold (tab N (\<lambda>n. tab Co (\<lambda>oc. tab (?nH * ?nW) (\<lambda>l. ?S n oc l + b ! oc))))
             (?nH, ?nW) 1 0 1
           = Inr (tab N (\<lambda>n. tab Co (\<lambda>oc. tab ?nH (\<lambda>i. tab ?nW (\<lambda>j.
                ?S n oc (i * ?nW + j) + b ! oc)))))"
    by (rule fold_reshape [OF pos(1,5)]) simp_all
  have R: "tab N (\<lambda>n. tab Co (\<lambda>oc. tab ?nH (\<lambda>i. tab ?nW (\<lambda>j.
                ?S n oc (i * ?nW + j) + b ! oc)))) = conv2d_ref x w b s p"
    unfolding conv2d_ref_def Let_def szx szw
    by (intro tab_cong refl arg_cong2 [where f = "(+)"] conv_sum_flat)
  show ?thesis
    apply (simp only: forward_body_def Let_def)
    apply (simp only: U rbind_Inr)
    apply (simp only: M)
    apply (simp only: rbind_Inr)
    apply (simp only: T)
    apply (simp only: option.simps)
    apply (simp only: so)
    apply (simp only: E)
    apply (simp only: rbind_Inr)
    apply (simp only: A)
    apply (simp only: c)
    apply (simp only: out_dim_nat [OF fit(1)] out_dim_nat [OF fit(2)])
    apply (simp only: F)
    apply (simp only: rbind_Inr R)
    done
qed

lemma forward_result:
  assumes v: "valid_call N Ci H W Co K x w s p" and b: "length b = Co"
  shows "forward ctx x w (Some b) (PyInt (int s)) (PyInt (int p))
           = Inr (ctx\<lparr>ctx_stride := int s, ctx_padding := int p,
                      ctx_input_height := H, ctx_input_width := W,
                      ctx_saved_tensors := (patches x K p s, view2 w, w, Some b)\<rparr>,
                  conv2d_ref x w b s p)"
proof -
  from v have pos: "0 < N" "0 < Ci" "0 < H" "0 < W" "0 < Co" "0 < K" "0 < s"
    and x: "is_t4 N Ci H W x" and w: "is_t4 Co Ci K K w"
    and fit: "K \<le> H + 2 * p" "K \<le> W + 2 * p"
    by (simp_all add: valid_call_def)
  have sz: "size1 x = Ci" "size2 x = H" "size3 x = W" "size1 w = Ci" "size2 w = K" "size3 w = K"
    using pos by (simp_all add: is_t4_size1 [OF x] is_t4_size2 [OF x] is_t4_size3 [OF x]
        is_t4_size1 [OF w] is_t4_size2 [OF w] is_t4_size3 [OF w])
  let ?ctx = "ctx\<lparr>ctx_stride := int s, ctx_padding := int p,
                    ctx_input_height := H, ctx_input_width := W\<rparr>"
  have "forward ctx x w (Some b) (PyInt (int s)) (PyInt (int p))
          = forward_body ?ctx x w (Some b) K (int s) (int p)"
    using pos fit by (simp add: forward_def sz Let_def)
  also have "\<dots> = Inr (?ctx\<lparr>ctx_saved_tensors := (patches x K p s, view2 w, w, Some b)\<rparr>,
                  conv2d_ref x w b s p)"
    by (rule forward_body_result [OF v b]) simp_all
  finally show ?thesis by simp
qed

lemma conv2d_ref_shape:
  assumes v: "valid_call N Ci H W Co K x w s p"
  shows "is_t4 N Co (out_size H K p s) (out_size W K p s) (conv2d_ref x w b s p)"
proof -
  from v have pos: "0 < N" "0 < Ci" "0 < H" "0 < W" "0 < Co" "0 < K" "0 < s"
    and x: "is_t4 N Ci H W x" and w: "is_t4 Co Ci K K w"
    by (simp_all add: valid_call_def)
  have sz: "length x = N" "size2 x = H" "size3 x = W" "length w = Co" "size2 w = K"
    using pos by (simp_all add: is_t4_length [OF x] is_t4_size2 [OF x] is_t4_size3 [OF x]
        is_t4_length [OF w] is_t4_size2 [OF w])
  show ?thesis
    by (simp add: conv2d_ref_def Let_def sz is_t4_tab is_t3_tab is_t2_tab)
qed

text \<open>
  Claim C1. For every valid input, weight and bias, positive stride and non-negative
  padding, the forward pass (unfold, matrix product, bias, fold) returns the reference
  cross-correlation computed by the direct nested loop, the bias of each output
  channel added. Sums and products are exact here; rounding is outside the model. The
  witness is the scenario of the specification: all-ones \<open>(1,1,5,5)\<close> input, all-ones
  \<open>(1,1,3,3)\<close> weight, bias 0, stride 1, padding 0, every output element 9.
\<close>

theorem forward_equals_reference:
  assumes "valid_call N Ci H W Co K x w s p" and "length b = Co"
  shows "\<exists>ctx'. forward ctx x w (Some b) (PyInt (int s)) (PyInt (int p))
                  = Inr (ctx', conv2d_ref x w b s p)"
  using forward_result [OF assms] by blast

theorem forward_equals_reference_witness:
  "valid_call 1 1 5 5 1 3
     [[[[1, 1, 1, 1, 1], [1, 1, 1, 1, 1], [1, 1, 1, 1, 1], [1, 1, 1, 1, 1], [1, 1, 1, 1, 1 :: int]]]]
     [[[[1, 1, 1], [1, 1, 1], [1, 1, 1]]]] 1 0
   \<and> (\<exists>ctx'. forward (fresh_ctx (True, True, True, False, False))
        [[[[1, 1, 1, 1, 1], [1, 1, 1, 1, 1], [1, 1, 1, 1, 1], [1, 1, 1, 1, 1], [1, 1, 1, 1, 1 :: int]]]]
        [[[[1, 1, 1], [1, 1, 1], [1, 1, 1]]]] (Some [0]) (PyInt 1) (PyInt 0)
      = Inr (ctx', [[[[9, 9, 9], [9, 9, 9], [9, 9, 9]]]]))"
proof -
  let ?x = "[[[[1, 1, 1, 1, 1], [1, 1, 1, 1, 1], [1, 1, 1, 1, 1], [1, 1, 1, 1, 1], [1, 1, 1, 1, 1 :: int]]]]"
  let ?w = "[[[[1, 1, 1], [1, 1, 1], [1, 1, 1 :: int]]]]"
  have v: "valid_call 1 1 5 5 1 3 ?x ?w 1 0" by code_simp
  have r: "conv2d_ref ?x ?w [0] 1 0 = [[[[9, 9, 9], [9, 9, 9], [9, 9, 9]]]]" by code_simp
  obtain ctx' where "forward (fresh_ctx (True, True, True, False, False)) ?x ?w (Some [0])
      (PyInt (int 1)) (PyInt (int 0)) = Inr (ctx', conv2d_ref ?x ?w [0] 1 0)"
    using forward_equals_reference [OF v, of "[0]" "fresh_ctx (True, True, True, False, False)"]
    by auto
  then have "forward (fresh_ctx (True, True, True, False, False)) ?x ?w (Some [0])
      (PyInt 1) (PyInt 0) = Inr (ctx', [[[[9, 9, 9], [9, 9, 9], [9, 9, 9]]]])"
    by (simp only: r of_nat_1 of_nat_0)
  with v show ?thesis by blast
qed

text \<open>
  Claim C4. For every valid call the output of the forward pass has shape
  \<open>(N, C_out, (H + 2p - K) div s + 1, (W + 2p - K) div s + 1)\<close>.
\<close>

theorem forward_output_shape:
  assumes "valid_call N Ci H W Co K x w s p" and "length b = Co"
  shows "\<exists>ctx' out. forward ctx x w (Some b) (PyInt (int s)) (PyInt (int p)) = Inr (ctx', out)
           \<and> is_t4 N Co ((H + 2 * p - K) div s + 1) ((W + 2 * p - K) div s + 1) out"
  using forward_result [OF assms] conv2d_ref_shape [OF assms(1), of b]
  by (simp add: out_size_def)

theorem forward_output_shape_witness:
  "valid_call 1 2 3 4 2 2
     [[[[1, 2, 3, 4], [5, 6, 7, 8], [9, 10, 11, 12]], [[1, 0, 1, 0], [0, 1, 0, 1], [1, 1, 1, 1 :: int]]]]
     [[[[1, 0], [0, 1]], [[1, 1], [1, 1]]], [[[0, 1], [1, 0]], [[2, 0], [0, 2]]]] 2 1
   \<and> (\<exists>ctx' out. forward (fresh_ctx (True, True, True, False, False))
        [[[[1, 2, 3, 4], [5, 6, 7, 8], [9, 10, 11, 12]], [[1, 0, 1, 0], [0, 1, 0, 1], [1, 1, 1, 1 :: int]]]]
        [[[[1, 0], [0, 1]], [[1, 1], [1, 1]]], [[[0, 1], [1, 0]], [[2, 0], [0, 2]]]]
        (Some [1, 2]) (PyInt 2) (PyInt 1) = Inr (ctx', out)
      \<and> is_t4 1 2 2 3 out)"
proof -
  let ?x = "[[[[1, 2, 3, 4], [5, 6, 7, 8], [9, 10, 11, 12]], [[1, 0, 1, 0], [0, 1, 0, 1], [1, 1, 1, 1 :: int]]]]"
  let ?w = "[[[[1, 0], [0, 1]], [[1, 1], [1, 1]]], [[[0, 1], [1, 0]], [[2, 0], [0, 2 :: int]]]]"
  have v: "valid_call 1 2 3 4 2 2 ?x ?w 2 1" by code_simp
  have d: "(3 + 2 * 1 - 2) div 2 + 1 = (2::nat)" "(4 + 2 * 1 - 2) div 2 + 1 = (3::nat)"
    by simp_all
  obtain ctx' out where "forward (fresh_ctx (True, True, True, False, False)) ?x ?w (Some [1, 2])
      (PyInt (int 2)) (PyInt (int 1)) = Inr (ctx', out)"
    "is_t4 1 2 ((3 + 2 * 1 - 2) div 2 + 1) ((4 + 2 * 1 - 2) div 2 + 1) out"
    using forward_output_shape [OF v, of "[1, 2]" "fresh_ctx (True, True, True, False, False)"]
    by auto
  then have "forward (fresh_ctx (True, True, True, False, False)) ?x ?w (Some [1, 2])
      (PyInt 2) (PyInt 1) = Inr (ctx', out) \<and> is_t4 1 2 2 3 out"
    by (simp only: d of_nat_numeral of_nat_1)
  with v show ?thesis by blast
qed

section \<open>The backward pass\<close>

lemma is_t3_tab_form:
  assumes "is_t3 a b c t"
  shows "t = tab a (\<lambda>i. tab b (\<lambda>j. tab c (\<lambda>k. t ! i ! j ! k)))"
  by (rule is_t3_eq_tab [OF assms]) simp

lemma unfold_1x1:
  assumes g: "is_t4 N C H W g" and pos: "0 < N" "0 < C" "0 < H" "0 < W"
  shows "unfold g 1 0 1 = Inr (tab N (\<lambda>n. tab C (\<lambda>c. tab (H * W) (\<lambda>l.
            g ! n ! c ! (l div W) ! (l mod W)))))"
proof -
  have os: "out_size H (Suc 0) 0 (Suc 0) = H" "out_size W (Suc 0) 0 (Suc 0) = W"
    using pos by (simp_all add: out_size_def)
  have "unfold g 1 (int 0) (int 1) = Inr (tab N (\<lambda>n. im2col (g ! n) C H W 1 0 1))"
    using pos by (intro unfold_tab [OF g]) simp_all
  moreover have "im2col (g ! n) C H W 1 0 1
      = tab C (\<lambda>c. tab (H * W) (\<lambda>l. g ! n ! c ! (l div W) ! (l mod W)))" for n
  proof -
    have "l div W < H" if "l < H * W" for l
      using that pos by (simp add: less_mult_imp_div_less)
    then show ?thesis
      using pos by (simp add: im2col_def Let_def os pad_get_def)
  qed
  ultimately show ?thesis by simp
qed

lemma sum0_tab:
  assumes "0 < N" "0 < a"
  shows "sum0 (tab N (\<lambda>n. tab a (\<lambda>i. tab b (f n i))))
           = tab a (\<lambda>i. tab b (\<lambda>j. sumto N (\<lambda>n. f n i j)))"
  using assms by (simp add: sum0_def)

lemma flat3_bound:
  fixes c i j k :: nat
  assumes "c < C" "i < k" "j < k"
  shows "(c * k + i) * k + j < C * k * k"
proof -
  have "c * k + i < c * k + k" using assms by simp
  also have "\<dots> = Suc c * k" by simp
  also have "\<dots> \<le> C * k" using assms by (intro mult_le_mono1) simp
  finally have a: "c * k + i < C * k" .
  have "(c * k + i) * k + j < (c * k + i) * k + k" using assms by simp
  also have "\<dots> = Suc (c * k + i) * k" by simp
  also have "\<dots> \<le> (C * k) * k" using a by (intro mult_le_mono1) simp
  finally show ?thesis .
qed

lemma flat3_form: "c * k * k + i * k + j = (c * k + i) * k + j" for c i j k :: nat
  by (simp add: algebra_simps)

lemma view4_tab:
  assumes "0 < Co" "0 < k"
  shows "view4 (tab Co (\<lambda>oc. tab (Ci * k * k) (h oc))) k
           = Inr (tab Co (\<lambda>oc. tab Ci (\<lambda>c. tab k (\<lambda>i. tab k (\<lambda>j.
               h oc (c * k * k + i * k + j))))))"
proof -
  have "tab (Ci * k * k) (h oc) ! (c * k * k + i * k + j) = h oc (c * k * k + i * k + j)"
    if "c < Ci" "i < k" "j < k" for oc c i j
    using flat3_bound [OF that] by (simp add: flat3_form)
  then show ?thesis
    using assms by (simp add: view4_def map_tab mult.assoc)
qed

lemma backward_result:
  assumes bc: "backward_call N Ci H W Co K s p ctx g"
    and st: "ctx_saved_tensors ctx = (ifu, wu, w, b)"
  shows "backward ctx g =
     Inr (Some (tab N (\<lambda>n. tab Ci (\<lambda>c. tab H (\<lambda>y. tab W (\<lambda>x.
            sumto (Ci * K * K) (\<lambda>r. sumto (out_size H K p s * out_size W K p s) (\<lambda>l.
              if hits K p s (out_size W K p s) c y x r l
              then sumto Co (\<lambda>oc. g ! n ! oc ! (l div out_size W K p s) ! (l mod out_size W K p s)
                                   * wu ! oc ! r)
              else 0))))))),
          Some (tab Co (\<lambda>oc. tab Ci (\<lambda>c. tab K (\<lambda>ki. tab K (\<lambda>kj.
            sumto N (\<lambda>n. sumto (out_size H K p s * out_size W K p s) (\<lambda>l.
              ifu ! n ! (c * K * K + ki * K + kj) ! l
                * g ! n ! oc ! (l div out_size W K p s) ! (l mod out_size W K p s)))))))),
          (if b \<noteq> None \<and> fst (snd (snd (ctx_needs_input_grad ctx)))
           then Some (sum023 g) else None),
          None, None)"
proof -
  let ?nH = "out_size H K p s" and ?nW = "out_size W K p s"
  let ?L = "?nH * ?nW"
  let ?G = "\<lambda>n oc l. g ! n ! oc ! (l div ?nW) ! (l mod ?nW)"
  from bc st have pos: "0 < N" "0 < Ci" "0 < Co" "0 < K" "0 < s"
    and fit: "K \<le> H + 2 * p" "K \<le> W + 2 * p"
    and c: "ctx_stride ctx = int s" "ctx_padding ctx = int p"
      "ctx_input_height ctx = H" "ctx_input_width ctx = W"
    and ifu: "is_t3 N (Ci * K * K) ?L ifu" and wu: "is_t2 Co (Ci * K * K) wu"
    and w: "is_t4 Co Ci K K w" and g: "is_t4 N Co ?nH ?nW g"
    by (simp_all add: backward_call_def)
  have ckk: "0 < Ci * K * K" using pos by simp
  have L: "0 < ?L" by simp
  have k: "size2 w = K" using pos by (simp add: is_t4_size2 [OF w])
  have U: "unfold g 1 0 1 = Inr (tab N (\<lambda>n. tab Co (\<lambda>oc. tab ?L (?G n oc))))"
    by (rule unfold_1x1 [OF g pos(1,3)]) simp_all
  have T1: "transpose12 (tab N (\<lambda>n. tab Co (\<lambda>oc. tab ?L (?G n oc))))
              = tab N (\<lambda>n. tab ?L (\<lambda>l. tab Co (\<lambda>oc. ?G n oc l)))"
    by (rule transpose12_tab [OF pos(3)])
  have WU: "wu = tab Co (\<lambda>oc. tab (Ci * K * K) (\<lambda>r. wu ! oc ! r))"
    by (rule is_t2_tab_form [OF wu])
  let ?D = "\<lambda>n r l. sumto Co (\<lambda>oc. ?G n oc l * wu ! oc ! r)"
  have M1: "matmul32 (tab N (\<lambda>n. tab ?L (\<lambda>l. tab Co (\<lambda>oc. ?G n oc l)))) wu
              = Inr (tab N (\<lambda>n. tab ?L (\<lambda>l. tab (Ci * K * K) (\<lambda>r. ?D n r l))))"
    by (subst WU) (rule matmul32_tab [OF pos(1) L pos(3)])
  have T2: "transpose12 (tab N (\<lambda>n. tab ?L (\<lambda>l. tab (Ci * K * K) (\<lambda>r. ?D n r l))))
              = tab N (\<lambda>n. tab (Ci * K * K) (\<lambda>r. tab ?L (?D n r)))"
    by (rule transpose12_tab [OF L])
  have sh: "is_t3 N (Ci * K * K) ?L (tab N (\<lambda>n. tab (Ci * K * K) (\<lambda>r. tab ?L (?D n r))))"
    by (simp add: is_t3_tab is_t2_tab)
  have F: "fold (tab N (\<lambda>n. tab (Ci * K * K) (\<lambda>r. tab ?L (?D n r)))) (H, W) K (int p) (int s)
             = Inr (tab N (\<lambda>n. tab Ci (\<lambda>c. tab H (\<lambda>y. tab W (\<lambda>x.
                 sumto (Ci * K * K) (\<lambda>r. sumto ?L (\<lambda>l.
                   if hits K p s ?nW c y x r l then ?D n r l else 0)))))))"
    unfolding fold_tab [OF pos(1,2,4,5) fit sh] col2im_tab
    by (simp cong: if_cong)
  have IFU: "ifu = tab N (\<lambda>n. tab (Ci * K * K) (\<lambda>r. tab ?L (\<lambda>l. ifu ! n ! r ! l)))"
    by (rule is_t3_tab_form [OF ifu])
  have M2: "matmul33 ifu (tab N (\<lambda>n. tab ?L (\<lambda>l. tab Co (\<lambda>oc. ?G n oc l))))
              = Inr (tab N (\<lambda>n. tab (Ci * K * K) (\<lambda>r. tab Co (\<lambda>oc.
                  sumto ?L (\<lambda>l. ifu ! n ! r ! l * ?G n oc l)))))"
    by (subst IFU) (rule matmul33_tab [OF pos(1) ckk L])
  have T3: "transpose12 (tab N (\<lambda>n. tab (Ci * K * K) (\<lambda>r. tab Co (\<lambda>oc.
                  sumto ?L (\<lambda>l. ifu ! n ! r ! l * ?G n oc l)))))
              = tab N (\<lambda>n. tab Co (\<lambda>oc. tab (Ci * K * K) (\<lambda>r.
                  sumto ?L (\<lambda>l. ifu ! n ! r ! l * ?G n oc l))))"
    by (rule transpose12_tab [OF ckk])
  have S: "sum0 (tab N (\<lambda>n. tab Co (\<lambda>oc. tab (Ci * K * K) (\<lambda>r.
                  sumto ?L (\<lambda>l. ifu ! n ! r ! l * ?G n oc l)))))
              = tab Co (\<lambda>oc. tab (Ci * K * K) (\<lambda>r. sumto N (\<lambda>n.
                  sumto ?L (\<lambda>l. ifu ! n ! r ! l * ?G n oc l))))"
    by (rule sum0_tab [OF pos(1,3)])
  have V: "view4 (tab Co (\<lambda>oc. tab (Ci * K * K) (\<lambda>r. sumto N (\<lambda>n.
                  sumto ?L (\<lambda>l. ifu ! n ! r ! l * ?G n oc l))))) K
              = Inr (tab Co (\<lambda>oc. tab Ci (\<lambda>c. tab K (\<lambda>ki. tab K (\<lambda>kj. sumto N (\<lambda>n.
                  sumto ?L (\<lambda>l. ifu ! n ! (c * K * K + ki * K + kj) ! l * ?G n oc l)))))))"
    by (rule view4_tab [OF pos(3,4)])
  show ?thesis
    apply (simp only: backward_def st prod.case Let_def k c)
    apply (simp only: U rbind_Inr T1)
    apply (simp only: M1 rbind_Inr T2)
    apply (simp only: F rbind_Inr)
    apply (simp only: M2 rbind_Inr T3 S)
    apply (simp only: V rbind_Inr)
    done
qed

lemma sumto_rotate4:
  "sumto a (\<lambda>ki. sumto b (\<lambda>kj. sumto c (\<lambda>i. sumto d (\<lambda>j. f ki kj i j))))
     = sumto c (\<lambda>i. sumto d (\<lambda>j. sumto a (\<lambda>ki. sumto b (\<lambda>kj. f ki kj i j))))"
proof -
  have "sumto a (\<lambda>ki. sumto b (\<lambda>kj. sumto c (\<lambda>i. sumto d (\<lambda>j. f ki kj i j))))
      = sumto a (\<lambda>ki. sumto c (\<lambda>i. sumto b (\<lambda>kj. sumto d (\<lambda>j. f ki kj i j))))"
    by (rule sumto_cong [OF refl]) (rule sumto_swap)
  also have "\<dots> = sumto c (\<lambda>i. sumto a (\<lambda>ki. sumto b (\<lambda>kj. sumto d (\<lambda>j. f ki kj i j))))"
    by (rule sumto_swap)
  also have "\<dots> = sumto c (\<lambda>i. sumto a (\<lambda>ki. sumto d (\<lambda>j. sumto b (\<lambda>kj. f ki kj i j))))"
    by (rule sumto_cong [OF refl], rule sumto_cong [OF refl], rule sumto_swap)
  also have "\<dots> = sumto c (\<lambda>i. sumto d (\<lambda>j. sumto a (\<lambda>ki. sumto b (\<lambda>kj. f ki kj i j))))"
    by (rule sumto_cong [OF refl], rule sumto_swap)
  finally show ?thesis .
qed

lemma hits_flat:
  assumes "ki < K" "kj < K" "j < nW"
  shows "hits K p s nW c y x ((c' * K + ki) * K + kj) (i * nW + j)
           \<longleftrightarrow> c' = c \<and> i * s + ki = y + p \<and> j * s + kj = x + p"
  unfolding hits_def flat3_index [OF assms(1,2)] window_index [OF assms(3)] ..

lemma scatter_as_windows:
  fixes D :: "nat \<Rightarrow> nat \<Rightarrow> 'a::comm_monoid_add"
  assumes c: "c < Ci"
  shows "sumto (Ci * K * K) (\<lambda>r. sumto (nH * nW) (\<lambda>l.
            if hits K p s nW c y x r l then D r l else 0))
       = sumto nH (\<lambda>i. sumto nW (\<lambda>j. sumto K (\<lambda>ki. sumto K (\<lambda>kj.
            if i * s + ki = y + p \<and> j * s + kj = x + p
            then D (c * K * K + ki * K + kj) (i * nW + j) else 0))))"
proof -
  let ?T = "\<lambda>c' ki kj i j. if i * s + ki = y + p \<and> j * s + kj = x + p
              then D ((c' * K + ki) * K + kj) (i * nW + j) else 0"
  have "sumto (Ci * K * K) (\<lambda>r. sumto (nH * nW) (\<lambda>l.
            if hits K p s nW c y x r l then D r l else 0))
      = sumto Ci (\<lambda>c'. sumto K (\<lambda>ki. sumto K (\<lambda>kj. sumto nH (\<lambda>i. sumto nW (\<lambda>j.
            if hits K p s nW c y x ((c' * K + ki) * K + kj) (i * nW + j)
            then D ((c' * K + ki) * K + kj) (i * nW + j) else 0)))))"
    by (simp only: sumto_mult)
  also have "\<dots> = sumto Ci (\<lambda>c'. if c' = c
                then sumto K (\<lambda>ki. sumto K (\<lambda>kj. sumto nH (\<lambda>i. sumto nW (\<lambda>j. ?T c ki kj i j))))
                else 0)"
  proof (rule sumto_cong [OF refl])
    fix c'
    have "sumto nW (\<lambda>j. if hits K p s nW c y x ((c' * K + ki) * K + kj) (i * nW + j)
            then D ((c' * K + ki) * K + kj) (i * nW + j) else 0)
        = sumto nW (\<lambda>j. if c' = c then ?T c ki kj i j else 0)"
      if "ki < K" "kj < K" for ki kj i
      by (rule sumto_cong [OF refl]) (simp add: hits_flat [OF that])
    then have "sumto K (\<lambda>ki. sumto K (\<lambda>kj. sumto nH (\<lambda>i. sumto nW (\<lambda>j.
            if hits K p s nW c y x ((c' * K + ki) * K + kj) (i * nW + j)
            then D ((c' * K + ki) * K + kj) (i * nW + j) else 0))))
        = sumto K (\<lambda>ki. sumto K (\<lambda>kj. sumto nH (\<lambda>i. sumto nW (\<lambda>j.
            if c' = c then ?T c ki kj i j else 0))))"
      by (simp only: cong: sumto_cong)
    also have "\<dots> = (if c' = c
                then sumto K (\<lambda>ki. sumto K (\<lambda>kj. sumto nH (\<lambda>i. sumto nW (\<lambda>j. ?T c ki kj i j))))
                else 0)"
      by (cases "c' = c") simp_all
    finally show "sumto K (\<lambda>ki. sumto K (\<lambda>kj. sumto nH (\<lambda>i. sumto nW (\<lambda>j.
            if hits K p s nW c y x ((c' * K + ki) * K + kj) (i * nW + j)
            then D ((c' * K + ki) * K + kj) (i * nW + j) else 0))))
        = (if c' = c
                then sumto K (\<lambda>ki. sumto K (\<lambda>kj. sumto nH (\<lambda>i. sumto nW (\<lambda>j. ?T c ki kj i j))))
                else 0)" .
  qed
  also have "\<dots> = sumto K (\<lambda>ki. sumto K (\<lambda>kj. sumto nH (\<lambda>i. sumto nW (\<lambda>j. ?T c ki kj i j))))"
    using c by (simp only: sumto_delta if_True)
  also have "\<dots> = sumto nH (\<lambda>i. sumto nW (\<lambda>j. sumto K (\<lambda>ki. sumto K (\<lambda>kj. ?T c ki kj i j))))"
    by (rule sumto_rotate4)
  finally show ?thesis by (simp only: flat3_form)
qed

lemma forward_backward_call:
  assumes v: "valid_call N Ci H W Co K x w s p" and b: "length b = Co"
    and f: "forward ctx x w (Some b) (PyInt (int s)) (PyInt (int p)) = Inr (ctx', out)"
    and g: "is_t4 N Co (out_size H K p s) (out_size W K p s) g"
  shows "backward_call N Ci H W Co K s p ctx' g"
proof -
  from v have pos: "0 < N" "0 < Ci" "0 < H" "0 < W" "0 < Co" "0 < K" "0 < s"
    and x: "is_t4 N Ci H W x" and w: "is_t4 Co Ci K K w"
    and fit: "K \<le> H + 2 * p" "K \<le> W + 2 * p"
    by (simp_all add: valid_call_def)
  have szx: "length x = N" "size1 x = Ci" "size2 x = H" "size3 x = W"
    using pos by (simp_all add: is_t4_length [OF x] is_t4_size1 [OF x] is_t4_size2 [OF x]
        is_t4_size3 [OF x])
  have c: "ctx' = ctx\<lparr>ctx_stride := int s, ctx_padding := int p,
                      ctx_input_height := H, ctx_input_width := W,
                      ctx_saved_tensors := (patches x K p s, view2 w, w, Some b)\<rparr>"
    using f forward_result [OF v b, of ctx] by simp
  have p: "is_t3 N (Ci * K * K) (out_size H K p s * out_size W K p s) (patches x K p s)"
    by (simp add: patches_def szx im2col_def Let_def is_t3_tab is_t2_tab)
  have vw: "is_t2 Co (Ci * K * K) (view2 w)"
    by (simp add: view2_tab [OF w] is_t2_tab)
  show ?thesis
    using pos fit p vw w g by (simp add: backward_call_def c)
qed

lemma backward_tuple:
  "backward ctx g = Inr r \<Longrightarrow> \<exists>gi gw gb. r = (Some gi, Some gw, gb, None, None)"
  by (auto simp add: backward_def Let_def rbind_def split: prod.splits sum.splits)

lemma overlap_call: "backward_call 1 1 4 4 1 3 1 0 overlap_ctx overlap_grad"
  by code_simp

lemma overlap_ctx_from_forward:
  "forward (fresh_ctx (True, True, True, False, False))
     [[[[1, 2, 3, 4], [5, 6, 7, 8], [9, 10, 11, 12], [13, 14, 15, 16]]]]
     [[[[1, 1, 1], [1, 1, 1], [1, 1, 1]]]] (Some [0]) (PyInt 1) (PyInt 0)
   = Inr (overlap_ctx, [[[[54, 63], [90, 99]]]])"
  by code_simp

text \<open>
  Claim C2. In every backward call that matches a forward call, whatever the stride,
  the returned input gradient gives each input pixel the sum of
  \<open>WeightFlat\<^sup>T \<times> GradOutputColumn\<close> over all windows covering it: the scatter of
  \<^verbatim>\<open>fold\<close> accumulates. In the overlap scenario (stride 1 below kernel size 3) the
  centre pixels collect all four windows, \<open>1 + 10 + 100 + 1000\<close>, the corners one.
\<close>

theorem backward_grad_input_sums_windows:
  assumes bc: "backward_call N Ci H W Co K s p ctx g"
  shows "\<exists>gw gb. backward ctx g
           = Inr (Some (grad_input_ref (fst (snd (ctx_saved_tensors ctx))) g Ci H W K s p),
                  gw, gb, None, None)"
proof -
  obtain ifu wu w b where st: "ctx_saved_tensors ctx = (ifu, wu, w, b)"
    by (cases "ctx_saved_tensors ctx")
  let ?nH = "out_size H K p s" and ?nW = "out_size W K p s"
  from bc st have pos: "0 < N" "0 < Co" and wu: "is_t2 Co (Ci * K * K) wu"
    and g: "is_t4 N Co ?nH ?nW g"
    by (simp_all add: backward_call_def)
  have sz: "length g = N" "size2 g = ?nH" "size3 g = ?nW" "length wu = Co"
    using pos by (simp_all add: is_t4_length [OF g] is_t4_size2 [OF g] is_t4_size3 [OF g]
        is_t2_length [OF wu])
  have "sumto (Ci * K * K) (\<lambda>r. sumto (?nH * ?nW) (\<lambda>l.
            if hits K p s ?nW c y x r l
            then sumto Co (\<lambda>oc. g ! n ! oc ! (l div ?nW) ! (l mod ?nW) * wu ! oc ! r)
            else 0))
      = sumto ?nH (\<lambda>i. sumto ?nW (\<lambda>j. sumto K (\<lambda>ki. sumto K (\<lambda>kj.
            if i * s + ki = y + p \<and> j * s + kj = x + p
            then grad_patch wu (g ! n) (c * K * K + ki * K + kj) i j else 0))))"
    if "c < Ci" for n c y x
    unfolding scatter_as_windows [OF that] grad_patch_def sz
    by ((rule sumto_cong [OF refl])+) (simp add: window_index)
  then have "tab N (\<lambda>n. tab Ci (\<lambda>c. tab H (\<lambda>y. tab W (\<lambda>x.
            sumto (Ci * K * K) (\<lambda>r. sumto (?nH * ?nW) (\<lambda>l.
              if hits K p s ?nW c y x r l
              then sumto Co (\<lambda>oc. g ! n ! oc ! (l div ?nW) ! (l mod ?nW) * wu ! oc ! r)
              else 0))))))
      = grad_input_ref wu g Ci H W K s p"
    unfolding grad_input_ref_def sz by (intro tab_cong refl)
  then show ?thesis
    using backward_result [OF bc st] by (simp add: st)
qed

theorem backward_grad_input_sums_windows_witness:
  "backward_call 1 1 4 4 1 3 1 0 overlap_ctx overlap_grad
   \<and> (\<exists>gw gb. backward overlap_ctx overlap_grad
         = Inr (Some [[[[1, 11, 11, 10], [101, 1111, 1111, 1010],
                        [101, 1111, 1111, 1010], [100, 1100, 1100, 1000]]]],
                gw, gb, None, None))"
proof -
  have r: "grad_input_ref (fst (snd (ctx_saved_tensors overlap_ctx))) overlap_grad 1 4 4 3 1 0
             = [[[[1, 11, 11, 10], [101, 1111, 1111, 1010],
                  [101, 1111, 1111, 1010], [100, 1100, 1100, 1000]]]]"
    by code_simp
  show ?thesis
    using backward_grad_input_sums_windows [OF overlap_call] overlap_call by (simp only: r)
qed

text \<open>
  Claim C6. In every backward call that matches a forward call the returned weight
  gradient is, for each output channel, the sum over the batch and over all window
  positions of cached patch entry times output gradient, in shape
  \<open>(C_out, C_in, K, K)\<close>.
\<close>

theorem backward_grad_weight_sums_outer_products:
  assumes bc: "backward_call N Ci H W Co K s p ctx g"
  shows "\<exists>gi gb. backward ctx g
           = Inr (gi, Some (grad_weight_ref (fst (ctx_saved_tensors ctx)) g Ci K),
                  gb, None, None)"
proof -
  obtain ifu wu w b where st: "ctx_saved_tensors ctx = (ifu, wu, w, b)"
    by (cases "ctx_saved_tensors ctx")
  let ?nH = "out_size H K p s" and ?nW = "out_size W K p s"
  from bc st have pos: "0 < N" "0 < Co" and g: "is_t4 N Co ?nH ?nW g"
    by (simp_all add: backward_call_def)
  have sz: "length g = N" "size1 g = Co" "size2 g = ?nH" "size3 g = ?nW"
    using pos by (simp_all add: is_t4_length [OF g] is_t4_size1 [OF g] is_t4_size2 [OF g]
        is_t4_size3 [OF g])
  show ?thesis
    using backward_result [OF bc st] by (simp add: st grad_weight_ref_def sz)
qed

theorem backward_grad_weight_sums_outer_products_witness:
  "backward_call 1 1 4 4 1 3 1 0 overlap_ctx overlap_grad
   \<and> (\<exists>gi gb. backward overlap_ctx overlap_grad
         = Inr (gi, Some [[[[6521, 7632, 8743], [10965, 12076, 13187],
                            [15409, 16520, 17631]]]], gb, None, None))"
proof -
  have r: "grad_weight_ref (fst (ctx_saved_tensors overlap_ctx)) overlap_grad 1 3
             = [[[[6521, 7632, 8743], [10965, 12076, 13187], [15409, 16520, 17631]]]]"
    by code_simp
  show ?thesis
    using backward_grad_weight_sums_outer_products [OF overlap_call] overlap_call
    by (simp only: r)
qed

text \<open>
  Claim C7. In every backward call that matches a forward call the bias gradient is
  the sum of the output gradient over the batch and both spatial axes, one entry per
  output channel, when a bias was saved and its gradient is requested; otherwise it is
  \<open>None\<close>.
\<close>

theorem backward_grad_bias_sums_grad_output:
  assumes bc: "backward_call N Ci H W Co K s p ctx g"
  shows "\<exists>gi gw. backward ctx g
           = Inr (gi, gw,
                  (if snd (snd (snd (ctx_saved_tensors ctx))) \<noteq> None
                      \<and> fst (snd (snd (ctx_needs_input_grad ctx)))
                   then Some (tab Co (\<lambda>oc. sumto N (\<lambda>n. sumto (out_size H K p s) (\<lambda>y.
                          sumto (out_size W K p s) (\<lambda>x. g ! n ! oc ! y ! x)))))
                   else None),
                  None, None)"
proof -
  obtain ifu wu w b where st: "ctx_saved_tensors ctx = (ifu, wu, w, b)"
    by (cases "ctx_saved_tensors ctx")
  let ?nH = "out_size H K p s" and ?nW = "out_size W K p s"
  from bc st have pos: "0 < N" "0 < Co" and g: "is_t4 N Co ?nH ?nW g"
    by (simp_all add: backward_call_def)
  have sz: "length g = N" "size1 g = Co" "size2 g = ?nH" "size3 g = ?nW"
    using pos by (simp_all add: is_t4_length [OF g] is_t4_size1 [OF g] is_t4_size2 [OF g]
        is_t4_size3 [OF g])
  show ?thesis
    using backward_result [OF bc st] by (simp add: st sum023_def sz)
qed

theorem backward_grad_bias_sums_grad_output_witness:
  "backward_call 1 1 4 4 1 3 1 0 overlap_ctx overlap_grad
   \<and> (\<exists>gi gw. backward overlap_ctx overlap_grad = Inr (gi, gw, Some [1111], None, None))"
proof -
  have r: "(if snd (snd (snd (ctx_saved_tensors overlap_ctx))) \<noteq> None
                \<and> fst (snd (snd (ctx_needs_input_grad overlap_ctx)))
            then Some (tab 1 (\<lambda>oc. sumto 1 (\<lambda>n. sumto (out_size 4 3 0 1) (\<lambda>y.
                   sumto (out_size 4 3 0 1) (\<lambda>x. overlap_grad ! n ! oc ! y ! x)))))
            else None) = Some [1111]"
    by code_simp
  show ?thesis
    using backward_grad_bias_sums_grad_output [OF overlap_call] overlap_call
    by (simp only: r)
qed

text \<open>
  Claim C8. Whenever the backward pass returns, it returns the 5-tuple of input
  gradient, weight gradient, bias gradient and \<open>None\<close> twice: the gradients of stride
  and padding are \<open>None\<close>, never a number. And it does return for every call that
  matches a forward call.
\<close>

theorem backward_stride_padding_not_applicable:
  "(backward_call N Ci H W Co K s p ctx g
      \<longrightarrow> (\<exists>gi gw gb. backward ctx g = Inr (Some gi, Some gw, gb, None, None)))
   \<and> (\<forall>r. backward ctx g = Inr r \<longrightarrow> (\<exists>gi gw gb. r = (Some gi, Some gw, gb, None, None)))"
proof (intro conjI impI allI)
  assume bc: "backward_call N Ci H W Co K s p ctx g"
  obtain ifu wu w b where st: "ctx_saved_tensors ctx = (ifu, wu, w, b)"
    by (cases "ctx_saved_tensors ctx")
  show "\<exists>gi gw gb. backward ctx g = Inr (Some gi, Some gw, gb, None, None)"
    using backward_result [OF bc st] by blast
next
  fix r assume "backward ctx g = Inr r"
  then show "\<exists>gi gw gb. r = (Some gi, Some gw, gb, None, None)"
    by (rule backward_tuple)
qed

theorem backward_stride_padding_not_applicable_witness:
  "backward_call 1 1 4 4 1 3 1 0 overlap_ctx overlap_grad
   \<and> backward overlap_ctx overlap_grad
       = Inr (Some [[[[1, 11, 11, 10], [101, 1111, 1111, 1010],
                      [101, 1111, 1111, 1010], [100, 1100, 1100, 1000]]]],
              Some [[[[6521, 7632, 8743], [10965, 12076, 13187], [15409, 16520, 17631]]]],
              Some [1111], None, None)"
proof -
  have e: "backward overlap_ctx overlap_grad
       = Inr (Some [[[[1, 11, 11, 10], [101, 1111, 1111, 1010],
                      [101, 1111, 1111, 1010], [100, 1100, 1100, 1000]]]],
              Some [[[[6521, 7632, 8743], [10965, 12076, 13187], [15409, 16520, 17631]]]],
              Some [1111], None, None)"
    by code_simp
  obtain gi gw gb where o: "backward overlap_ctx overlap_grad
       = Inr (Some gi, Some gw, gb, None, (None :: int option))"
    using backward_stride_padding_not_applicable
      [of 1 1 4 4 1 3 1 0 overlap_ctx overlap_grad] overlap_call
    by blast
  have "gi = [[[[1, 11, 11, 10], [101, 1111, 1111, 1010],
                [101, 1111, 1111, 1010], [100, 1100, 1100, 1000]]]]
      \<and> gw = [[[[6521, 7632, 8743], [10965, 12076, 13187], [15409, 16520, 17631]]]]
      \<and> gb = Some [1111]"
    using o e by simp
  then show ?thesis using o overlap_call by simp
qed

end
